theory Spec2Isabelle
  imports Main
begin

section \<open>Python string operations used by \<open>email_parser.py\<close>\<close>

text \<open>
  A Python \<open>str\<close> is modelled as a \<open>string\<close>; the characters are the code points
  0 to 255. The functions below are the built-in string methods the module calls.
\<close>

text \<open>\<open>s.startswith(p)\<close>.\<close>

fun startswith :: "string \<Rightarrow> string \<Rightarrow> bool" where
  "startswith s [] = True"
| "startswith [] (p # ps) = False"
| "startswith (c # cs) (p # ps) = (c = p \<and> startswith cs ps)"

text \<open>\<open>sub in s\<close> for two strings.\<close>

fun str_in :: "string \<Rightarrow> string \<Rightarrow> bool" where
  "str_in sub [] = (sub = [])"
| "str_in sub (c # cs) = (startswith (c # cs) sub \<or> str_in sub cs)"

text \<open>
  \<open>s.replace(old, new)\<close>: the occurrences of \<open>old\<close> are found from left to right
  and do not overlap. For an empty \<open>old\<close> Python puts \<open>new\<close> before every character
  and at the end.
\<close>

function str_replace :: "string \<Rightarrow> string \<Rightarrow> string \<Rightarrow> string" where
  "str_replace old new [] = (if old = [] then new else [])"
| "str_replace old new (c # cs) =
     (if old = [] then new @ c # str_replace old new cs
      else if startswith (c # cs) old
        then new @ str_replace old new (drop (length old) (c # cs))
      else c # str_replace old new cs)"
  by pat_completeness auto
termination
  by (relation "measure (\<lambda>(old, new, s). length s)") auto

text \<open>\<open>sep.join(parts)\<close>.\<close>

fun join :: "string \<Rightarrow> string list \<Rightarrow> string" where
  "join sep [] = []"
| "join sep [x] = x"
| "join sep (x # y # ys) = x @ sep @ join sep (y # ys)"

text \<open>\<open>s.strip(chars)\<close> removes the leading and trailing characters that are in \<open>chars\<close>.\<close>

definition strip_chars :: "string \<Rightarrow> string \<Rightarrow> string" where
  "strip_chars chars s =
     rev (dropWhile (\<lambda>c. c \<in> set chars) (rev (dropWhile (\<lambda>c. c \<in> set chars) s)))"

text \<open>
  \<open>repr(s)\<close> of a string made of letters, digits and hyphens: the text between single
  quotes. \<open>eat\<close> applies it to the header names only.
\<close>

definition repr :: "string \<Rightarrow> string" where
  "repr s = [CHR 0x27] @ s @ [CHR 0x27]"

section \<open>The parsed mail and the digested email\<close>

text \<open>
  An attachment record of the MIME parser, with the three keys \<open>eat\<close> reads:
  \<open>"content-id"\<close>, \<open>"content_transfer_encoding"\<close> (may be absent) and \<open>"payload"\<close>.
\<close>

record attachment =
  content_id :: string
  content_transfer_encoding :: "string option"
  payload :: string

text \<open>
  The object \<open>mailparser.parse_from_string(raw)\<close> returns, with the attributes
  \<open>eat\<close> reads. \<open>date\<close> is a datetime or \<open>None\<close>; the type of datetimes is left open.
\<close>

record 'dt mail =
  mail_message_id :: string
  mail_date :: "'dt option"
  mail_from :: "(string \<times> string) list"
  mail_subject :: string
  mail_to :: "(string \<times> string) list"
  mail_headers :: "string \<rightharpoonup> string"
  mail_text_plain :: "string list"
  mail_text_html :: "string list"
  mail_attachments :: "attachment list"

record 'addr Contact =
  email :: 'addr
  name :: "string option"

record ('dt, 'addr) Email =
  sent :: 'dt
  sender :: "'addr Contact"
  subject :: string
  thread_topic :: "string option"
  content :: "string \<rightharpoonup> string"
  to :: "'addr Contact option"
  message_id :: string

text \<open>
  The exceptions that leave \<open>eat\<close>: its own \<open>EmailMissingHeaders\<close> with the message,
  the built-in ones of a failed \<open>assert\<close>, an index out of range or an operation on
  \<open>None\<close>, and whatever the address parser or the image library raise.
\<close>

datatype error =
    EmailMissingHeaders string
  | AssertionError
  | IndexError
  | TypeError
  | AddressError string
  | ImageError string

text \<open>
  The collaborators of \<open>eat\<close> that are not string code: \<open>_parser_email_address\<close>
  (an instance of \<open>Parser\<close>, module \<open>.parser\<close>) and \<open>compress_image\<close>, whose body is
  calls into the base64 and Pillow libraries on the image data. Both take a string and
  return a value or raise.
\<close>

record 'addr collaborators =
  parser_email_address :: "string \<Rightarrow> error + 'addr"
  compress_image :: "string \<Rightarrow> error + string"

section \<open>Header digestion\<close>

text \<open>
  \<open>nibble(header_name, header_data, headers_not_found)\<close>. The truth value Python gives
  \<open>header_data\<close> depends on its type, so the test is the first argument. The list
  \<open>headers_not_found\<close> is mutated in place in the source; here it is returned.
  \<open>None\<close> for the list is the default argument.
\<close>

definition nibble ::
  "('a \<Rightarrow> bool) \<Rightarrow> string \<Rightarrow> 'a \<Rightarrow> string list option \<Rightarrow> 'a option \<times> string list option" where
  "nibble truthy header_name header_data headers_not_found =
     (if truthy header_data then (Some header_data, headers_not_found)
      else (None, map_option (\<lambda>l. l @ [header_name]) headers_not_found))"

definition truthy_str :: "string \<Rightarrow> bool" where
  "truthy_str s = (s \<noteq> [])"

definition truthy_list :: "'a list \<Rightarrow> bool" where
  "truthy_list l = (l \<noteq> [])"

definition truthy_opt :: "'a option \<Rightarrow> bool" where
  "truthy_opt x = (x \<noteq> None)"

definition truthy_opt_str :: "string option \<Rightarrow> bool" where
  "truthy_opt_str x = (case x of None \<Rightarrow> False | Some s \<Rightarrow> s \<noteq> [])"

section \<open>Inline images\<close>

definition strip_newlines :: "string \<Rightarrow> string" where
  "strip_newlines p = str_replace [CHR 0x0A] [] p"

text \<open>The loop over the attachments of the \<open>text/plain\<close> branch, on the body it rewrites.\<close>

fun plain_loop :: "attachment list \<Rightarrow> string \<Rightarrow> string" where
  "plain_loop [] body = body"
| "plain_loop (a # as) body =
     (let cid = strip_chars ''<>'' (content_id a) in
      if cid \<noteq> [] then
        (let before = ''[cid:'' @ cid @ '']''; after = [] in
         plain_loop as (str_replace before after body))
      else plain_loop as body)"

text \<open>The loop of the \<open>text/html\<close> branch; \<open>compress_image\<close> may raise.\<close>

fun html_loop :: "'addr collaborators \<Rightarrow> attachment list \<Rightarrow> string \<Rightarrow> error + string" where
  "html_loop lib [] body = Inr body"
| "html_loop lib (a # as) body =
     (let cid = strip_chars ''<>'' (content_id a) in
      if cid \<noteq> [] then
        (let cte = (case content_transfer_encoding a of
                      None \<Rightarrow> ''base64''
                    | Some e \<Rightarrow> if e = [] then ''base64'' else e);
             before = ''src='' @ [CHR 0x22] @ ''cid:'' @ cid @ [CHR 0x22];
             payload_fixed = strip_newlines (payload a)
         in case compress_image lib payload_fixed of
              Inl err \<Rightarrow> Inl err
            | Inr payload_compressed \<Rightarrow>
                (let after = ''src='' @ [CHR 0x22] @ ''data:image/png;'' @ cte @ '','' @ payload_compressed
                              @ [CHR 0x22]
                 in html_loop lib as (str_replace before after body)))
      else html_loop lib as body)"

section \<open>Digestion\<close>

text \<open>
  \<open>eat\<close>, from the parsed mail on. The statements of the source are kept in order and
  every raise is an \<open>Inl\<close>: the \<open>EmailMissingHeaders\<close> of the source, a failed
  \<open>assert\<close>, an index out of range at \<open>sender[0]\<close> or \<open>to[0]\<close>, and what the
  collaborators raise. A local variable that has the name of a field of \<open>Email\<close> is
  written with a prime.
\<close>

definition eat :: "'addr collaborators \<Rightarrow> 'dt mail \<Rightarrow> error + ('dt, 'addr) Email" where
  "eat lib mail =
   (let headers_not_found = Some [];
        (message_id', headers_not_found) =
           nibble truthy_str ''Message-ID'' (mail_message_id mail) headers_not_found;
        (sent', headers_not_found) =
           nibble truthy_opt ''Date'' (mail_date mail) headers_not_found;
        (sender', headers_not_found) =
           nibble truthy_list ''From'' (mail_from mail) headers_not_found;
        (subject', headers_not_found) =
           nibble truthy_str ''Subject'' (mail_subject mail) headers_not_found;
        (to', _) = nibble truthy_list ''To'' (mail_to mail) None
    in
    case (case headers_not_found of None \<Rightarrow> [] | Some l \<Rightarrow> l) of
      h # hs \<Rightarrow>
        (let headers = join '', '' (map repr (h # hs));
             msg = ''failed to parse: '' @ headers
         in Inl (EmailMissingHeaders msg))
    | [] \<Rightarrow>
      (let thread_topic' = mail_headers mail ''Thread-Topic'' in
       case (message_id', sent', subject', sender') of
         (Some message_id', Some (Some sent'), Some subject', Some sender') \<Rightarrow>
         (case sender' of
            [] \<Rightarrow> Inl IndexError
          | (first_sender_name, first_sender_email) # _ \<Rightarrow>
         (case (case to' of
                  None \<Rightarrow> Inr (None, None)
                | Some [] \<Rightarrow> Inl IndexError
                | Some ((n, e) # _) \<Rightarrow> Inr (Some n, Some e)) of
            Inl err \<Rightarrow> Inl err
          | Inr (first_to_name, first_to_email) \<Rightarrow>
         (case parser_email_address lib first_sender_email of
            Inl err \<Rightarrow> Inl err
          | Inr sender_email \<Rightarrow>
         (let sender_contact = \<lparr>email = sender_email, name = Some first_sender_name\<rparr> in
          case (if truthy_opt_str first_to_name \<or> truthy_opt_str first_to_email
                then (case first_to_email of
                        None \<Rightarrow> Inl TypeError
                      | Some e \<Rightarrow>
                          (case parser_email_address lib e of
                             Inl err \<Rightarrow> Inl err
                           | Inr to_email \<Rightarrow>
                               Inr (Some \<lparr>email = to_email, name = first_to_name\<rparr>)))
                else Inr None) of
            Inl err \<Rightarrow> Inl err
          | Inr to_contact \<Rightarrow>
         (let content' = Map.empty;
              content' = (case mail_text_plain mail of
                           [] \<Rightarrow> content'
                         | p # _ \<Rightarrow>
                             content'(''text/plain'' \<mapsto> plain_loop (mail_attachments mail) p))
          in
          case (case mail_text_html mail of
                  [] \<Rightarrow> Inr content'
                | h # _ \<Rightarrow>
                    (case html_loop lib (mail_attachments mail) h of
                       Inl err \<Rightarrow> Inl err
                     | Inr body \<Rightarrow> Inr (content'(''text/html'' \<mapsto> body)))) of
            Inl err \<Rightarrow> Inl err
          | Inr content' \<Rightarrow>
              Inr \<lparr>sent = sent',
                   sender = sender_contact,
                   subject = subject',
                   thread_topic = thread_topic',
                   content = content',
                   to = to_contact,
                   message_id = message_id'\<rparr>)))))
       | _ \<Rightarrow> Inl AssertionError))"

section \<open>The standard library's HTML parser, as far as \<open>html2text\<close> drives it\<close>

text \<open>\<open>c.isspace()\<close>, which is also the class \<open>\s\<close> of \<open>re\<close>, on the code points below 256.\<close>

definition is_space :: "char \<Rightarrow> bool" where
  "is_space c =
     (let n = (of_char c :: nat)
      in (9 \<le> n \<and> n \<le> 13) \<or> (28 \<le> n \<and> n \<le> 32) \<or> n = 133 \<or> n = 160)"

text \<open>\<open>s.strip()\<close>.\<close>

definition strip :: "string \<Rightarrow> string" where
  "strip s = rev (dropWhile is_space (rev (dropWhile is_space s)))"

text \<open>
  What is not string code in the library: the table \<open>html.entities.html5\<close>, the text
  \<open>html.unescape\<close> puts for a numeric character reference (a code point that may lie
  beyond 255), and the handler calls \<open>HTMLParser.goahead\<close> makes from a \<open><\<close> that opens
  markup on (start tags, end tags, comments, declarations, and the data between and after
  them).
\<close>

datatype event =
    StartTag string "(string \<times> string option) list"
  | EndTag string
  | HandleData string
  | EntityRef string

record htmllib =
  html5 :: "string \<rightharpoonup> string"
  numeric_charref :: "string \<Rightarrow> string"
  markup_events :: "string \<Rightarrow> event list"

text \<open>
  \<open>html._replace_charref\<close> for a named reference: the loop
  \<open>for x in range(len(s)-1, 1, -1)\<close> that looks for the longest prefix of the name that
  is in the table, and \<open>'&' + s\<close> when there is none.
\<close>

fun named_prefix :: "(string \<rightharpoonup> string) \<Rightarrow> string \<Rightarrow> nat \<Rightarrow> string" where
  "named_prefix h5 s 0 = CHR ''&'' # s"
| "named_prefix h5 s (Suc x) =
     (if Suc x \<le> 1 then CHR ''&'' # s
      else (case h5 (take (Suc x) s) of
              Some v \<Rightarrow> v @ drop (Suc x) s
            | None \<Rightarrow> named_prefix h5 s x))"

definition replace_charref :: "htmllib \<Rightarrow> string \<Rightarrow> string" where
  "replace_charref lib s =
     (if startswith s ''#'' then numeric_charref lib s
      else (case html5 lib s of
              Some v \<Rightarrow> v
            | None \<Rightarrow> named_prefix (html5 lib) s (length s - 1)))"

definition is_dec :: "char \<Rightarrow> bool" where
  "is_dec c = (let n = (of_char c :: nat) in 48 \<le> n \<and> n \<le> 57)"

definition is_hex :: "char \<Rightarrow> bool" where
  "is_hex c =
     (let n = (of_char c :: nat)
      in (48 \<le> n \<and> n \<le> 57) \<or> (65 \<le> n \<and> n \<le> 70) \<or> (97 \<le> n \<and> n \<le> 102))"

text \<open>The class \<open>[^\t\n\f <&#;]\<close>.\<close>

definition name_char :: "char \<Rightarrow> bool" where
  "name_char c = (c \<notin> set [CHR 0x09, CHR 0x0A, CHR 0x0C, CHR '' '', CHR ''<'', CHR ''&'',
                             CHR ''#'', CHR '';''])"

definition semi :: "string \<Rightarrow> string" where
  "semi r = (if startswith r '';'' then '';'' else [])"

text \<open>
  The group of \<open>html._charref\<close>, that is
  \<open>&(#[0-9]+;?|#[xX][0-9a-fA-F]+;?|[^\t\n\f <&#;]{1,32};?)\<close>, matched at an
  ampersand that is followed by \<open>cs\<close>.
\<close>

definition charref_group :: "string \<Rightarrow> string option" where
  "charref_group cs =
     (case cs of
        [] \<Rightarrow> None
      | c # ds \<Rightarrow>
          if c = CHR ''#'' then
            (let digs = takeWhile is_dec ds in
             if digs \<noteq> [] then Some (c # digs @ semi (drop (length digs) ds))
             else (case ds of
                     [] \<Rightarrow> None
                   | x # hs \<Rightarrow>
                       if x = CHR ''x'' \<or> x = CHR ''X'' then
                         (let hex = takeWhile is_hex hs in
                          if hex \<noteq> [] then Some (c # x # hex @ semi (drop (length hex) hs))
                          else None)
                       else None))
          else
            (let nm = take 32 (takeWhile name_char cs) in
             if nm \<noteq> [] then Some (nm @ semi (drop (length nm) cs)) else None))"

text \<open>\<open>_charref.sub(_replace_charref, s)\<close>.\<close>

function charref_sub :: "htmllib \<Rightarrow> string \<Rightarrow> string" where
  "charref_sub lib [] = []"
| "charref_sub lib (c # cs) =
     (if c = CHR ''&'' then
        (case charref_group cs of
           Some g \<Rightarrow> replace_charref lib g @ charref_sub lib (drop (length g) cs)
         | None \<Rightarrow> c # charref_sub lib cs)
      else c # charref_sub lib cs)"
  by pat_completeness auto
termination
  by (relation "measure (\<lambda>(lib, s). length s)") auto

text \<open>\<open>html.unescape(s)\<close>.\<close>

definition unescape :: "htmllib \<Rightarrow> string \<Rightarrow> string" where
  "unescape lib s = (if CHR ''&'' \<notin> set s then s else charref_sub lib s)"

text \<open>
  The test of \<open>goahead\<close> that keeps text back when no \<open><\<close> follows:
  \<open>amppos = rawdata.rfind('&', max(i, n-34))\<close> finds an ampersand and
  \<open>re.compile(r'[\s;]').search(rawdata, amppos)\<close> finds nothing after it. The argument is
  \<open>rawdata[i:]\<close>.
\<close>

definition amp_pending :: "string \<Rightarrow> bool" where
  "amp_pending rawdata =
     (let tail = drop (length rawdata - 34) rawdata
      in CHR ''&'' \<in> set tail
         \<and> \<not> list_ex (\<lambda>c. is_space c \<or> c = CHR '';'')
                        (takeWhile (\<lambda>c. c \<noteq> CHR ''&'') (rev tail)))"

text \<open>
  The characters after which \<open><\<close> opens markup: a letter (\<open>starttagopen\<close>), \<open>/\<close>,
  \<open>!\<close> and \<open>?\<close>.
\<close>

definition opens_markup :: "char \<Rightarrow> bool" where
  "opens_markup c =
     (let n = (of_char c :: nat)
      in (65 \<le> n \<and> n \<le> 90) \<or> (97 \<le> n \<and> n \<le> 122)
         \<or> c = CHR ''/'' \<or> c = CHR ''!'' \<or> c = CHR ''?'')"

text \<open>
  The loop of \<open>goahead(0)\<close> on \<open>rawdata[i:]\<close>: the handler calls it makes, in order.
  The parser is created by \<open>HTMLParser.__init__(self)\<close>, so \<open>convert_charrefs\<close> has its
  default \<open>True\<close>: the text up to the next \<open><\<close> goes through \<open>unescape\<close> to
  \<open>handle_data\<close>, and \<open>handle_entityref\<close> is not called for it. A \<open><\<close> that opens no
  markup is data when a character follows it; as the last character it stops the loop, and
  so does a pending ampersand in the text after the last \<open><\<close>. What the loop leaves
  stays in the parser's buffer.
\<close>

function goahead :: "htmllib \<Rightarrow> string \<Rightarrow> event list" where
  "goahead lib rawdata =
     (if rawdata = [] then []
      else if CHR ''<'' \<notin> set rawdata then
        (if amp_pending rawdata then [] else [HandleData (unescape lib rawdata)])
      else
        (let j = length (takeWhile (\<lambda>c. c \<noteq> CHR ''<'') rawdata);
             data = (if 0 < j then [HandleData (unescape lib (take j rawdata))] else [])
         in case drop (Suc j) rawdata of
              [] \<Rightarrow> data
            | c # cs \<Rightarrow>
                if opens_markup c then data @ markup_events lib (drop j rawdata)
                else data @ [HandleData ''<''] @ goahead lib (c # cs)))"
  by pat_completeness auto
termination
proof (relation "measure (\<lambda>(lib, rawdata). length rawdata)")
  show "wf (measure (\<lambda>(lib, rawdata). length rawdata))" by simp
next
  fix lib :: htmllib and rawdata :: string and x xa c cs
  assume "drop (Suc x) rawdata = c # cs"
  then have "length (c # cs) = length rawdata - Suc x" by (metis length_drop)
  then have "length (c # cs) < length rawdata" by simp
  then show "((lib, c # cs), (lib, rawdata)) \<in> measure (\<lambda>(lib, rawdata). length rawdata)"
    by simp
qed

text \<open>The equation unfolds forever as a rewrite rule; it is used by name.\<close>

declare goahead.simps [simp del]

text \<open>
  \<open>HTMLParser.feed(data)\<close> on a new parser, whose buffer is empty. \<open>html2text\<close> does not
  call \<open>close()\<close> after it.
\<close>

definition feed :: "htmllib \<Rightarrow> string \<Rightarrow> event list" where
  "feed lib data = goahead lib data"

section \<open>\<open>HTML2TextConverter\<close> and \<open>html2text\<close>\<close>

definition entities :: "string \<rightharpoonup> string" where
  "entities = map_of
     [(''nbsp'', '' ''),
      (''lt'', ''<''),
      (''gt'', ''>''),
      (''amp'', ''&''),
      (''quot'', [CHR 0x22]),
      (''apos'', [CHR 0x27])]"

text \<open>The handlers, on the list \<open>self.text_parts\<close>.\<close>

definition handle_starttag :: "string \<Rightarrow> (string \<times> string option) list \<Rightarrow> string list \<Rightarrow> string list" where
  "handle_starttag tag attrs text_parts =
     (if tag = ''br'' then text_parts @ [[CHR 0x0A]] else text_parts)"

definition handle_endtag :: "string \<Rightarrow> string list \<Rightarrow> string list" where
  "handle_endtag tag text_parts =
     (if tag \<in> set [''p'', ''div'', ''li'', ''h1'', ''h2'', ''h3'', ''h4'', ''h5'', ''h6'']
      then text_parts @ [[CHR 0x0A]] else text_parts)"

definition handle_data :: "string \<Rightarrow> string list \<Rightarrow> string list" where
  "handle_data data text_parts = text_parts @ [data]"

definition handle_entityref :: "string \<Rightarrow> string list \<Rightarrow> string list" where
  "handle_entityref name' text_parts =
     text_parts @ [case entities name' of Some v \<Rightarrow> v | None \<Rightarrow> []]"

definition get_text :: "string list \<Rightarrow> string" where
  "get_text text_parts = strip (concat text_parts)"

fun dispatch :: "string list \<Rightarrow> event \<Rightarrow> string list" where
  "dispatch text_parts (StartTag tag attrs) = handle_starttag tag attrs text_parts"
| "dispatch text_parts (EndTag tag) = handle_endtag tag text_parts"
| "dispatch text_parts (HandleData data) = handle_data data text_parts"
| "dispatch text_parts (EntityRef name') = handle_entityref name' text_parts"

definition html2text :: "htmllib \<Rightarrow> string \<Rightarrow> string" where
  "html2text lib html = get_text (foldl dispatch [] (feed lib html))"

section \<open>The regular expression of the broadcast marker\<close>

text \<open>\<open>\w\<close> and \<open>str.lower\<close> on the code points below 256.\<close>

definition is_word :: "char \<Rightarrow> bool" where
  "is_word c =
     (let n = (of_char c :: nat)
      in (48 \<le> n \<and> n \<le> 57) \<or> (65 \<le> n \<and> n \<le> 90) \<or> n = 95 \<or> (97 \<le> n \<and> n \<le> 122)
         \<or> n = 170 \<or> n = 178 \<or> n = 179 \<or> n = 181 \<or> n = 185 \<or> n = 186
         \<or> (188 \<le> n \<and> n \<le> 190) \<or> (192 \<le> n \<and> n \<le> 214) \<or> (216 \<le> n \<and> n \<le> 246)
         \<or> (248 \<le> n \<and> n \<le> 255))"

definition lower :: "char \<Rightarrow> char" where
  "lower c =
     (let n = (of_char c :: nat)
      in if (65 \<le> n \<and> n \<le> 90) \<or> (192 \<le> n \<and> n \<le> 222 \<and> n \<noteq> 215)
         then char_of (n + 32) else c)"

text \<open>
  The constructs of \<open>re\<close> that \<open>DORMSPAM_PATTERN\<close> uses: a literal, a set of
  literals and of the classes \<open>\s\<close> and \<open>\w\<close>, \<open>\b\<close>, concatenation, \<open>|\<close>, the greedy
  \<open>?\<close> and \<open>+\<close>, and a numbered group.
\<close>

datatype citem = Chr char | CatSpace | CatWord

datatype regex =
    Epsilon
  | Lit char
  | CharSet "citem list"
  | WordBoundary
  | Cat regex regex
  | Or regex regex
  | Optional regex
  | OneOrMore regex
  | Capture nat regex

text \<open>
  A position of the matcher in the subject: the text before it (last character first), the
  text from it on, and the groups captured so far.
\<close>

datatype mstate = MState (before: string) (rest: string) (captures: "nat \<rightharpoonup> string")

text \<open>The flag is \<open>re.IGNORECASE\<close>.\<close>

fun item_match :: "bool \<Rightarrow> char \<Rightarrow> citem \<Rightarrow> bool" where
  "item_match ic c (Chr x) = (if ic then lower c = lower x else c = x)"
| "item_match ic c CatSpace = is_space c"
| "item_match ic c CatWord = is_word c"

definition at_boundary :: "mstate \<Rightarrow> bool" where
  "at_boundary st =
     ((case before st of [] \<Rightarrow> False | p # _ \<Rightarrow> is_word p)
      \<noteq> (case rest st of [] \<Rightarrow> False | c # _ \<Rightarrow> is_word c))"

text \<open>
  The backtracking matcher: all the ways the expression matches at a position, in the order
  \<open>re\<close> tries them, so that the head of the list is the match \<open>re\<close> returns.
\<close>

function rx_match :: "bool \<Rightarrow> regex \<Rightarrow> mstate \<Rightarrow> mstate list" where
  "rx_match ic Epsilon st = [st]"
| "rx_match ic (Lit x) st =
     (case rest st of
        [] \<Rightarrow> []
      | c # cs \<Rightarrow>
          if item_match ic c (Chr x) then [MState (c # before st) cs (captures st)] else [])"
| "rx_match ic (CharSet items) st =
     (case rest st of
        [] \<Rightarrow> []
      | c # cs \<Rightarrow>
          if list_ex (item_match ic c) items
          then [MState (c # before st) cs (captures st)] else [])"
| "rx_match ic WordBoundary st = (if at_boundary st then [st] else [])"
| "rx_match ic (Cat a b) st = concat (map (rx_match ic b) (rx_match ic a st))"
| "rx_match ic (Or a b) st = rx_match ic a st @ rx_match ic b st"
| "rx_match ic (Optional a) st = rx_match ic a st @ [st]"
| "rx_match ic (OneOrMore a) st =
     concat (map (\<lambda>st1. rx_match ic (OneOrMore a) st1 @ [st1])
                 (filter (\<lambda>st1. length (rest st1) < length (rest st)) (rx_match ic a st)))"
| "rx_match ic (Capture n a) st =
     map (\<lambda>st1. MState (before st1) (rest st1)
                  ((captures st1)(n \<mapsto> take (length (rest st) - length (rest st1)) (rest st))))
         (rx_match ic a st)"
  by pat_completeness auto
termination
  by (relation "measures [\<lambda>(ic, r, st). size r, \<lambda>(ic, r, st). length (rest st)]") auto

text \<open>The equation of \<open>+\<close> unfolds forever as a rewrite rule; it is used by name.\<close>

declare rx_match.simps(8) [simp del]

text \<open>\<open>re.search\<close>: the first position, from the left, where the expression matches.\<close>

fun search_from :: "bool \<Rightarrow> regex \<Rightarrow> string \<Rightarrow> string \<Rightarrow> mstate option" where
  "search_from ic r bef [] =
     (case rx_match ic r (MState bef [] Map.empty) of [] \<Rightarrow> None | st # _ \<Rightarrow> Some st)"
| "search_from ic r bef (c # cs) =
     (case rx_match ic r (MState bef (c # cs) Map.empty) of
        [] \<Rightarrow> search_from ic r (c # bef) cs
      | st # _ \<Rightarrow> Some st)"

definition re_search :: "regex \<Rightarrow> string \<Rightarrow> bool \<Rightarrow> mstate option" where
  "re_search pattern s ignorecase = search_from ignorecase pattern [] s"

text \<open>\<open>match.group(n)\<close>.\<close>

definition group :: "mstate \<Rightarrow> nat \<Rightarrow> string option" where
  "group match n = captures match n"

definition cat :: "regex list \<Rightarrow> regex" where
  "cat rs = foldr Cat rs Epsilon"

definition lits :: "string \<Rightarrow> regex list" where
  "lits s = map Lit s"

text \<open>
  The pattern
  \<^verbatim>\<open>\b[bB]cc[Q'`-]?e?d\s+to\s+(all\s+)?(?:dorms|dormspam)[;,.]?\s+([\*\s\w-]+)\s+for bc-talk\b\<close>
  where \<open>Q\<close> stands for the right single quotation mark (code point 8217) the source
  has there. No character below 256 is equal to it, so the set is written without it.
\<close>

definition DORMSPAM_PATTERN :: regex where
  "DORMSPAM_PATTERN = cat (
     [WordBoundary,
      CharSet [Chr CHR ''b'', Chr CHR ''B''], Lit CHR ''c'', Lit CHR ''c'',
      Optional (CharSet [Chr CHR 0x27, Chr CHR 0x60, Chr CHR ''-'']),
      Optional (Lit CHR ''e''), Lit CHR ''d'',
      OneOrMore (CharSet [CatSpace]), Lit CHR ''t'', Lit CHR ''o'',
      OneOrMore (CharSet [CatSpace]),
      Optional (Capture 1 (cat (lits ''all'' @ [OneOrMore (CharSet [CatSpace])]))),
      Or (cat (lits ''dorms'')) (cat (lits ''dormspam'')),
      Optional (CharSet [Chr CHR '';'', Chr CHR '','', Chr CHR ''.'']),
      OneOrMore (CharSet [CatSpace]),
      Capture 2 (OneOrMore (CharSet [Chr CHR ''*'', CatSpace, CatWord, Chr CHR ''-''])),
      OneOrMore (CharSet [CatSpace])]
     @ lits ''for bc-talk''
     @ [WordBoundary])"

definition DORMSPAM_PATTERN_COLOR_GROUP :: nat where
  "DORMSPAM_PATTERN_COLOR_GROUP = 2"

section \<open>The derived properties of \<open>Email\<close>\<close>

definition plaintext :: "htmllib \<Rightarrow> ('dt, 'addr) Email \<Rightarrow> string" where
  "plaintext lib self =
     (if ''text/plain'' \<in> dom (content self) then the (content self ''text/plain'')
      else if ''text/html'' \<in> dom (content self)
        then html2text lib (the (content self ''text/html''))
      else [])"

definition color :: "htmllib \<Rightarrow> ('dt, 'addr) Email \<Rightarrow> string option" where
  "color lib self =
     (case re_search DORMSPAM_PATTERN (plaintext lib self) True of
        Some search \<Rightarrow> group search DORMSPAM_PATTERN_COLOR_GROUP
      | None \<Rightarrow> None)"

definition dormspam :: "htmllib \<Rightarrow> ('dt, 'addr) Email \<Rightarrow> bool" where
  "dormspam lib self = truthy_opt_str (color lib self)"

section \<open>\<open>parse_date\<close>\<close>

text \<open>\<open>s.partition(sep)\<close>, for a separator that is not empty.\<close>

fun str_partition :: "string \<Rightarrow> string \<Rightarrow> string \<times> string \<times> string" where
  "str_partition [] sep = ([], [], [])"
| "str_partition (c # cs) sep =
     (if startswith (c # cs) sep then ([], sep, drop (length sep) (c # cs))
      else (case str_partition cs sep of
              (h, s, t) \<Rightarrow> if s = [] then (c # cs, [], []) else (c # h, s, t)))"

text \<open>
  \<open>datetime.datetime.strptime\<close> is the first argument: it returns a datetime or raises
  \<open>ValueError\<close>, of which \<open>Inl\<close> holds the message \<open>v.args[0]\<close>. The slice
  \<open>date[:-len(extra)]\<close> is taken with \<open>extra\<close> not empty.
\<close>

definition parse_date :: "(string \<Rightarrow> string \<Rightarrow> string + 'dt) \<Rightarrow> string \<Rightarrow> string + 'dt" where
  "parse_date strptime date =
     (let fmt = ''%a, %d %b %Y %H:%M:%S %z'' in
      case strptime date fmt of
        Inr sent' \<Rightarrow> Inr sent'
      | Inl v \<Rightarrow>
          (let extra = snd (snd (str_partition v ''unconverted data remains: '')) in
           if extra = [] then Inl v
           else strptime (take (length date - length extra) date) fmt))"

section \<open>The specification's wording of the header check and of the two rewrites\<close>

text \<open>The names of the required headers that are absent or empty, in the order of the check.\<close>

definition missing_headers :: "'dt mail \<Rightarrow> string list" where
  "missing_headers mail =
     map fst (filter snd
       [(''Message-ID'', mail_message_id mail = []),
        (''Date'', mail_date mail = None),
        (''From'', mail_from mail = []),
        (''Subject'', mail_subject mail = [])])"

text \<open>The pieces of a text between the occurrences of a marker, found from the left.\<close>

function split_on :: "string \<Rightarrow> string \<Rightarrow> string list" where
  "split_on sep [] = [[]]"
| "split_on sep (c # cs) =
     (if sep \<noteq> [] \<and> startswith (c # cs) sep
        then [] # split_on sep (drop (length sep) (c # cs))
      else (case split_on sep cs of
              [] \<Rightarrow> [[c]]
            | p # ps \<Rightarrow> (c # p) # ps))"
  by pat_completeness auto
termination
  by (relation "measure (\<lambda>(sep, s). length s)") auto

text \<open>Removing every occurrence keeps the pieces; replacing puts the new text between them.\<close>

definition remove_all :: "string \<Rightarrow> string \<Rightarrow> string" where
  "remove_all marker s = concat (split_on marker s)"

definition substitute_all :: "string \<Rightarrow> string \<Rightarrow> string \<Rightarrow> string" where
  "substitute_all marker new s = join new (split_on marker s)"

text \<open>The content-identifier of an attachment, without the angle brackets around it.\<close>

definition cid_of :: "attachment \<Rightarrow> string" where
  "cid_of a = strip_chars ''<>'' (content_id a)"

text \<open>The transfer-encoding, \<open>base64\<close> when the attachment specifies none.\<close>

definition encoding :: "attachment \<Rightarrow> string" where
  "encoding a =
     (if content_transfer_encoding a = None \<or> content_transfer_encoding a = Some []
      then ''base64'' else the (content_transfer_encoding a))"

text \<open>The image compressor on the payload without its newlines; it may raise.\<close>

definition image_compressor :: "'addr collaborators \<Rightarrow> attachment \<Rightarrow> error + string" where
  "image_compressor lib a = compress_image lib (filter (\<lambda>c. c \<noteq> CHR 0x0A) (payload a))"

text \<open>Its output, where it succeeds.\<close>

definition compressed_payload :: "'addr collaborators \<Rightarrow> attachment \<Rightarrow> string" where
  "compressed_payload lib a =
     (case image_compressor lib a of
        Inr png \<Rightarrow> png
      | Inl _ \<Rightarrow> [])"

definition cid_marker :: "attachment \<Rightarrow> string" where
  "cid_marker a = ''[cid:'' @ cid_of a @ '']''"

definition src_marker :: "attachment \<Rightarrow> string" where
  "src_marker a = ''src='' @ [CHR 0x22] @ ''cid:'' @ cid_of a @ [CHR 0x22]"

text \<open>The text that replaces the marker, for the compressed payload \<open>png\<close>.\<close>

definition data_uri :: "attachment \<Rightarrow> string \<Rightarrow> string" where
  "data_uri a png =
     ''src='' @ [CHR 0x22] @ ''data:image/png;'' @ encoding a @ '','' @ png @ [CHR 0x22]"

definition plaintext_cleanup :: "attachment list \<Rightarrow> string \<Rightarrow> string" where
  "plaintext_cleanup atts body =
     foldl (\<lambda>b a. if cid_of a = [] then b else remove_all (cid_marker a) b) body atts"

text \<open>The HTML rewrite, given the compressed payload of each attachment.\<close>

definition html_inlining :: "(attachment \<Rightarrow> string) \<Rightarrow> attachment list \<Rightarrow> string \<Rightarrow> string" where
  "html_inlining png atts body =
     foldl (\<lambda>b a. if cid_of a = [] then b
                  else substitute_all (src_marker a) (data_uri a (png a)) b) body atts"

text \<open>The content mapping: the plain and the HTML body, each from the first part of its kind.\<close>

definition body_content :: "(attachment \<Rightarrow> string) \<Rightarrow> 'dt mail \<Rightarrow> (string \<rightharpoonup> string)" where
  "body_content png mail =
     (case mail_text_plain mail of
        [] \<Rightarrow> Map.empty
      | p # _ \<Rightarrow> [''text/plain'' \<mapsto> plaintext_cleanup (mail_attachments mail) p])
     ++ (case mail_text_html mail of
           [] \<Rightarrow> Map.empty
         | h # _ \<Rightarrow> [''text/html'' \<mapsto> html_inlining png (mail_attachments mail) h])"

text \<open>
  The contact of the To role: none when the field is empty or when the name and the address
  of its first pair are both empty; otherwise the first pair, whose address must parse.
\<close>

definition resolve_to :: "'addr collaborators \<Rightarrow> 'dt mail \<Rightarrow> error + 'addr Contact option" where
  "resolve_to lib mail =
     (case mail_to mail of
        [] \<Rightarrow> Inr None
      | (n, a) # _ \<Rightarrow>
          if n = [] \<and> a = [] then Inr None
          else (case parser_email_address lib a of
                  Inl err \<Rightarrow> Inl err
                | Inr ad \<Rightarrow> Inr (Some \<lparr>email = ad, name = Some n\<rparr>)))"

text \<open>
  Texts the converter is not asked to be the identity on: a text has markup when some
  \<open><\<close> opens it, and \<open>html.unescape\<close> resolves a character reference in it when
  \<open>html._charref\<close> matches somewhere and \<open>_replace_charref\<close> gives another text than
  the reference as it is written.
\<close>

fun has_markup :: "string \<Rightarrow> bool" where
  "has_markup (c # d # cs) = ((c = CHR ''<'' \<and> opens_markup d) \<or> has_markup (d # cs))"
| "has_markup _ = False"

fun resolves_charref :: "htmllib \<Rightarrow> string \<Rightarrow> bool" where
  "resolves_charref lib [] = False"
| "resolves_charref lib (c # cs) =
     ((c = CHR ''&''
        \<and> (case charref_group cs of
              None \<Rightarrow> False
            | Some g \<Rightarrow> replace_charref lib g \<noteq> CHR ''&'' # g))
      \<or> resolves_charref lib cs)"

text \<open>
  A text of which the parser keeps the end back until \<open>close()\<close>: it ends in \<open><\<close>, or the
  text after its last \<open><\<close> has a pending ampersand.
\<close>

definition withheld :: "string \<Rightarrow> bool" where
  "withheld s =
     (s \<noteq> [] \<and> (last s = CHR ''<''
        \<or> amp_pending (rev (takeWhile (\<lambda>c. c \<noteq> CHR ''<'') (rev s)))))"

text \<open>The numbers of the groups of an expression.\<close>

fun group_ids :: "regex \<Rightarrow> nat set" where
  "group_ids (Cat a b) = group_ids a \<union> group_ids b"
| "group_ids (Or a b) = group_ids a \<union> group_ids b"
| "group_ids (Optional a) = group_ids a"
| "group_ids (OneOrMore a) = group_ids a"
| "group_ids (Capture n a) = insert n (group_ids a)"
| "group_ids _ = {}"




text \<open>The characters the set of the second group admits.\<close>

definition color_char :: "char \<Rightarrow> bool" where
  "color_char c = (c = CHR ''*'' \<or> is_space c \<or> is_word c \<or> c = CHR ''-'')"



section \<open>Example inputs\<close>

text \<open>
  A PNG image of one pixel in base64, and a text that stands for what the compressor makes
  of it (the first bytes of a PNG file 600 pixels wide and high).
\<close>

definition example_png :: string where
  "example_png =
     ''iVBORw0KGgoAAAANSUhEUgAAAAEAAAABCAYAAAAfFcSJAAAADUlEQVR42mNkYPhfDwAChwGA60e6kgAAAABJRU5ErkJggg==''"

definition example_png_compressed :: string where
  "example_png_compressed = ''iVBORw0KGgoAAAANSUhEUgAAAlgAAAJY''"

text \<open>
  Collaborators for the examples: an address parser that accepts a string with an \<open>@\<close>,
  and a compressor that accepts the image above and raises on any other payload.
\<close>

definition example_lib :: "string collaborators" where
  "example_lib =
     \<lparr>parser_email_address =
        (\<lambda>s. if CHR ''@'' \<in> set s then Inr s else Inl (AddressError s)),
      compress_image =
        (\<lambda>p. if p = example_png then Inr example_png_compressed
             else Inl (ImageError ''cannot identify image file''))\<rparr>"

text \<open>
  The entries of \<open>html.entities.html5\<close> for the six names of the converter's own table;
  the library's table has no entry for \<open>bogus\<close> or for a prefix of it either. The
  examples use no numeric reference and no markup.
\<close>

definition example_htmllib :: htmllib where
  "example_htmllib =
     \<lparr>html5 = map_of
        [(''nbsp;'', [CHR 0xA0]), (''nbsp'', [CHR 0xA0]),
         (''lt;'', ''<''), (''lt'', ''<''),
         (''gt;'', ''>''), (''gt'', ''>''),
         (''amp;'', ''&''), (''amp'', ''&''),
         (''quot;'', [CHR 0x22]), (''quot'', [CHR 0x22]),
         (''apos;'', [CHR 0x27])],
      numeric_charref = (\<lambda>s. []),
      markup_events = (\<lambda>s. [])\<rparr>"

type_synonym datetime = "nat \<times> nat \<times> nat \<times> nat \<times> nat \<times> nat \<times> int"

text \<open>The image as an attachment, its payload wrapped after 76 characters.\<close>

definition example_image :: attachment where
  "example_image =
     \<lparr>content_id = ''<img1>'', content_transfer_encoding = None,
      payload = take 76 example_png @ [CHR 0x0A] @ drop 76 example_png\<rparr>"

definition example_mail :: "datetime mail" where
  "example_mail =
     \<lparr>mail_message_id = ''<1@mit.edu>'',
      mail_date = Some (2024, 1, 1, 10, 0, 0, 0),
      mail_from = [(''Ann'', ''ann@mit.edu'')],
      mail_subject = ''Study break'',
      mail_to = [('''', ''dorm@mit.edu'')],
      mail_headers = Map.empty,
      mail_text_plain = [''Hi [cid:img1] all''],
      mail_text_html = [''<img src='' @ [CHR 0x22] @ ''cid:img1'' @ [CHR 0x22] @ ''>''],
      mail_attachments = [example_image]\<rparr>"

text \<open>The same mail with an attachment that is not an image and that no body refers to.\<close>

definition example_unreferenced :: attachment where
  "example_unreferenced =
     \<lparr>content_id = ''<doc1>'', content_transfer_encoding = Some ''base64'',
      payload = ''JVBERi0xLjQK''\<rparr>"

definition example_mail_pdf :: "datetime mail" where
  "example_mail_pdf = example_mail\<lparr>mail_attachments := [example_unreferenced]\<rparr>"

text \<open>An email whose only content is a plain text.\<close>

definition plain_email :: "string \<Rightarrow> (datetime, string) Email" where
  "plain_email text =
     \<lparr>sent = (2024, 1, 1, 10, 0, 0, 0),
      sender = \<lparr>email = ''ann@mit.edu'', name = Some ''Ann''\<rparr>,
      subject = ''Study break'',
      thread_topic = None,
      content = [''text/plain'' \<mapsto> text],
      to = None,
      message_id = ''<1@mit.edu>''\<rparr>"

text \<open>
  What \<open>strptime\<close> answers for one date with and without a trailing time zone name; any
  other string is answered as one that does not match the format.
\<close>

definition example_strptime :: "string \<Rightarrow> string \<Rightarrow> string + datetime" where
  "example_strptime date fmt =
     (if date = ''Mon, 01 Jan 2024 10:00:00 +0000'' then Inr (2024, 1, 1, 10, 0, 0, 0)
      else if date = ''Mon, 01 Jan 2024 10:00:00 +0000 (UTC)''
        then Inl (''unconverted data remains: '' @ '' (UTC)'')
      else Inl ''time data does not match format'')"

section \<open>Facts about the string operations\<close>

lemma startswith_iff: "startswith s p \<longleftrightarrow> (\<exists>r. s = p @ r)"
  by (induction s p rule: startswith.induct) auto

lemma str_in_iff: "str_in sub s \<longleftrightarrow> (\<exists>pre post. s = pre @ sub @ post)"
proof (induction s)
  case Nil
  then show ?case by auto
next
  case (Cons c cs)
  show ?case
  proof
    assume "str_in sub (c # cs)"
    then consider "startswith (c # cs) sub" | "str_in sub cs" by auto
    then show "\<exists>pre post. c # cs = pre @ sub @ post"
    proof cases
      case 1
      then obtain r where "c # cs = sub @ r" by (auto simp: startswith_iff)
      then have "c # cs = [] @ sub @ r" by simp
      then show ?thesis by blast
    next
      case 2
      then obtain pre post where "cs = pre @ sub @ post" using Cons.IH by auto
      then have "c # cs = (c # pre) @ sub @ post" by simp
      then show ?thesis by blast
    qed
  next
    assume "\<exists>pre post. c # cs = pre @ sub @ post"
    then obtain pre post where eq: "c # cs = pre @ sub @ post" by auto
    show "str_in sub (c # cs)"
    proof (cases pre)
      case Nil
      with eq have "startswith (c # cs) sub" by (auto simp: startswith_iff)
      then show ?thesis by simp
    next
      case (Cons d pre')
      with eq have "cs = pre' @ sub @ post" by simp
      then have "str_in sub cs" using Cons.IH by auto
      then show ?thesis by simp
    qed
  qed
qed

lemma str_replace_absent: "\<not> str_in old s \<Longrightarrow> str_replace old new s = s"
proof (induction s)
  case Nil
  then show ?case by simp
next
  case (Cons c cs)
  then show ?case by (cases old) auto
qed

lemma split_on_nonempty: "split_on sep s \<noteq> []"
  by (induction sep s rule: split_on.induct) (auto split: list.splits)

lemma join_Cons: "ps \<noteq> [] \<Longrightarrow> join new (p # ps) = p @ new @ join new ps"
  by (cases ps) auto

lemma str_replace_split_join:
  "old \<noteq> [] \<Longrightarrow> str_replace old new s = substitute_all old new s"
  unfolding substitute_all_def
proof (induction old new s rule: str_replace.induct)
  case (1 old new)
  then show ?case by simp
next
  case (2 old new c cs)
  show ?case
  proof (cases "startswith (c # cs) old")
    case True
    with 2 show ?thesis by (simp add: join_Cons split_on_nonempty)
  next
    case False
    obtain p ps where sp: "split_on old cs = p # ps"
      using split_on_nonempty[of old cs] by (cases "split_on old cs") auto
    have "join new ((c # p) # ps) = c # join new (p # ps)"
      by (cases ps) auto
    with 2 False sp show ?thesis by simp
  qed
qed

lemma str_replace_remove_all:
  "old \<noteq> [] \<Longrightarrow> str_replace old [] s = remove_all old s"
proof -
  have "join [] ps = concat ps" for ps :: "string list"
    by (induction "[] :: string" ps rule: join.induct) auto
  then show "old \<noteq> [] \<Longrightarrow> str_replace old [] s = remove_all old s"
    by (simp add: str_replace_split_join remove_all_def substitute_all_def)
qed

lemma strip_newlines_filter: "strip_newlines p = filter (\<lambda>c. c \<noteq> CHR 0x0A) p"
  unfolding strip_newlines_def by (induction p) auto

section \<open>The two loops over the attachments\<close>

lemma plain_loop_spec: "plain_loop atts body = plaintext_cleanup atts body"
  by (induction atts arbitrary: body)
     (auto simp: plaintext_cleanup_def cid_of_def cid_marker_def Let_def str_replace_remove_all)

lemma html_loop_step:
  "html_loop lib (a # as) body =
     (if cid_of a = [] then html_loop lib as body
      else (case compress_image lib (strip_newlines (payload a)) of
              Inl err \<Rightarrow> Inl err
            | Inr png \<Rightarrow> html_loop lib as (str_replace (src_marker a) (data_uri a png) body)))"
proof -
  have enc: "(case content_transfer_encoding a of None \<Rightarrow> ''base64''
              | Some e \<Rightarrow> if e = [] then ''base64'' else e) = encoding a"
    by (auto simp: encoding_def split: option.splits)
  show ?thesis
    by (simp add: cid_of_def src_marker_def data_uri_def Let_def enc split: sum.splits)
qed

lemma image_compressor_eq:
  "compress_image lib (strip_newlines (payload a)) = image_compressor lib a"
  by (simp add: image_compressor_def strip_newlines_filter)

lemma html_loop_total:
  "(\<forall>a \<in> set atts. cid_of a \<noteq> [] \<longrightarrow> image_compressor lib a = Inr (png a)) \<Longrightarrow>
   html_loop lib atts body = Inr (html_inlining png atts body)"
proof (induction atts arbitrary: body)
  case Nil
  then show ?case by (simp add: html_inlining_def)
next
  case (Cons a as)
  have sm: "src_marker a \<noteq> []" by (simp add: src_marker_def)
  from Cons.prems have rest: "\<forall>a \<in> set as. cid_of a \<noteq> [] \<longrightarrow> image_compressor lib a = Inr (png a)"
    by simp
  show ?case
  proof (cases "cid_of a = []")
    case True
    with Cons.IH[OF rest] show ?thesis
      by (simp add: html_loop_step html_inlining_def del: html_loop.simps)
  next
    case False
    with Cons.prems have "image_compressor lib a = Inr (png a)" by simp
    with False Cons.IH[OF rest] sm show ?thesis
      by (simp add: html_loop_step image_compressor_eq html_inlining_def str_replace_split_join
               del: html_loop.simps)
  qed
qed

lemma html_loop_spec:
  "html_loop lib atts body = Inr r \<Longrightarrow>
   r = html_inlining (compressed_payload lib) atts body \<and>
   (\<forall>a \<in> set atts. cid_of a \<noteq> [] \<longrightarrow>
      image_compressor lib a = Inr (compressed_payload lib a))"
proof (induction atts arbitrary: body)
  case Nil
  then show ?case by (simp add: html_inlining_def)
next
  case (Cons a as)
  show ?case
  proof (cases "cid_of a = []")
    case True
    with Cons.prems have "html_loop lib as body = Inr r"
      by (simp add: html_loop_step del: html_loop.simps)
    from Cons.IH[OF this] True show ?thesis
      by (simp add: html_inlining_def)
  next
    case False
    then obtain png where png: "image_compressor lib a = Inr png"
      using Cons.prems
      by (auto simp: html_loop_step image_compressor_eq simp del: html_loop.simps
               split: sum.splits)
    then have cp: "compressed_payload lib a = png"
      by (simp add: compressed_payload_def)
    have "html_loop lib as (str_replace (src_marker a) (data_uri a png) body) = Inr r"
      using Cons.prems False png
      by (simp add: html_loop_step image_compressor_eq del: html_loop.simps)
    moreover have "src_marker a \<noteq> []"
      by (simp add: src_marker_def)
    ultimately have
      "html_loop lib as (substitute_all (src_marker a) (data_uri a png) body) = Inr r"
      by (simp add: str_replace_split_join)
    from Cons.IH[OF this] False png cp show ?thesis
      by (simp add: html_inlining_def)
  qed
qed

section \<open>Digestion\<close>

lemma eat_content:
  assumes "eat lib mail = Inr e"
  shows "content e ''text/plain'' =
           (case mail_text_plain mail of [] \<Rightarrow> None
            | p # _ \<Rightarrow> Some (plain_loop (mail_attachments mail) p))"
    and "case mail_text_html mail of [] \<Rightarrow> content e ''text/html'' = None
         | h # _ \<Rightarrow> (\<exists>r. html_loop lib (mail_attachments mail) h = Inr r
                          \<and> content e ''text/html'' = Some r)"
  using assms
  by (auto simp: eat_def Let_def nibble_def
           split: list.splits option.splits sum.splits if_splits prod.splits)

text \<open>
  Digestion succeeds when the four required headers are there, the address of the first
  sender and the To contact resolve and, where there is an HTML part, the compressor accepts
  the payload of every attachment that has a content-identifier.
\<close>

lemma eat_digest:
  assumes "mail_message_id mail \<noteq> []" and "mail_date mail = Some d"
    and "mail_from mail = (sn, sa) # fs" and "mail_subject mail \<noteq> []"
    and "parser_email_address lib sa = Inr se"
    and "resolve_to lib mail = Inr tc"
    and "mail_text_html mail \<noteq> [] \<longrightarrow>
           (\<forall>a \<in> set (mail_attachments mail). cid_of a \<noteq> [] \<longrightarrow>
              image_compressor lib a = Inr (png a))"
  shows "eat lib mail =
           Inr \<lparr>sent = d,
                sender = \<lparr>email = se, name = Some sn\<rparr>,
                subject = mail_subject mail,
                thread_topic = mail_headers mail ''Thread-Topic'',
                content = body_content png mail,
                to = tc,
                message_id = mail_message_id mail\<rparr>"
proof -
  have html: "html_loop lib (mail_attachments mail) h
                = Inr (html_inlining png (mail_attachments mail) h)"
    if "mail_text_html mail = h # hs" for h hs
    using assms(7) that by (intro html_loop_total) simp
  show ?thesis
    using assms(1-6)
    by (cases "mail_to mail"; cases "mail_text_plain mail"; cases "mail_text_html mail")
       (auto simp: eat_def nibble_def truthy_str_def truthy_opt_def truthy_list_def Let_def
          truthy_opt_str_def resolve_to_def html plain_loop_spec body_content_def map_add_def
          split: sum.splits if_splits)
qed

text \<open>
  C1. When required headers (Message-ID, Date, From, Subject) are absent or empty, \<open>eat\<close>
  checks all four and raises one \<open>EmailMissingHeaders\<close> whose message lists every
  missing name, in the order of the check. A mail without Message-ID and without Subject,
  the other two present, gives the list \<open>["Message-ID", "Subject"]\<close> and the message
  \<open>failed to parse: 'Message-ID', 'Subject'\<close>.
\<close>

theorem eat_missing_headers:
  "(missing_headers mail \<noteq> [] \<longrightarrow>
      eat lib mail = Inl (EmailMissingHeaders
        (''failed to parse: '' @ join '', '' (map repr (missing_headers mail)))))
   \<and> (mail_message_id mail = [] \<and> mail_subject mail = []
        \<and> mail_date mail \<noteq> None \<and> mail_from mail \<noteq> [] \<longrightarrow>
      missing_headers mail = [''Message-ID'', ''Subject'']
      \<and> eat lib mail = Inl (EmailMissingHeaders
          (''failed to parse: '' @ [CHR 0x27] @ ''Message-ID'' @ [CHR 0x27] @ '', ''
             @ [CHR 0x27] @ ''Subject'' @ [CHR 0x27])))"
  by (auto simp: eat_def missing_headers_def nibble_def truthy_str_def truthy_opt_def
        truthy_list_def repr_def Let_def split: list.splits)

theorem eat_missing_headers_witness:
  "missing_headers (example_mail\<lparr>mail_message_id := [], mail_subject := []\<rparr>)
     = [''Message-ID'', ''Subject'']
   \<and> eat example_lib (example_mail\<lparr>mail_message_id := [], mail_subject := []\<rparr>)
     = Inl (EmailMissingHeaders (''failed to parse: '' @ [CHR 0x27] @ ''Message-ID'' @ [CHR 0x27]
         @ '', '' @ [CHR 0x27] @ ''Subject'' @ [CHR 0x27]))"
  using eat_missing_headers[of "example_mail\<lparr>mail_message_id := [], mail_subject := []\<rparr>" example_lib]
  by (simp add: example_mail_def)

text \<open>
  C4. Digestion succeeds when the required headers are there, the contacts resolve and the
  compressor accepts the payload, without its newlines, of every attachment whose
  content-identifier is not empty. The plain body of the result is then the first plain part
  with, for each such attachment in order, every occurrence of \<open>[cid:identifier]\<close>
  removed; the HTML body is the first HTML part with, for each such attachment in order,
  \<open>src="cid:identifier"\<close> replaced by \<open>src="data:image/png;encoding,payload"\<close>, where the
  encoding is \<open>base64\<close> when the attachment gives none and the payload is what the
  compressor returned. The occurrences are those a scan from the left finds in the body as
  the preceding attachments left it. Every digestion that succeeds has these two bodies.
\<close>

theorem eat_rewrites_bodies:
  "(mail_message_id mail \<noteq> [] \<and> mail_date mail = Some d
      \<and> mail_from mail = (sn, sa) # fs \<and> mail_subject mail \<noteq> []
      \<and> parser_email_address lib sa = Inr se \<and> resolve_to lib mail = Inr tc
      \<and> (\<forall>a \<in> set (mail_attachments mail). cid_of a \<noteq> [] \<longrightarrow>
             image_compressor lib a = Inr (png a)) \<longrightarrow>
      (\<exists>e. eat lib mail = Inr e
         \<and> (\<forall>p ps. mail_text_plain mail = p # ps \<longrightarrow>
               content e ''text/plain'' = Some (plaintext_cleanup (mail_attachments mail) p))
         \<and> (\<forall>h hs. mail_text_html mail = h # hs \<longrightarrow>
               content e ''text/html'' = Some (html_inlining png (mail_attachments mail) h))))
   \<and> (\<forall>e. eat lib mail = Inr e \<longrightarrow>
         (\<forall>p ps. mail_text_plain mail = p # ps \<longrightarrow>
            content e ''text/plain'' = Some (plaintext_cleanup (mail_attachments mail) p))
       \<and> (\<forall>h hs. mail_text_html mail = h # hs \<longrightarrow>
            content e ''text/html''
              = Some (html_inlining (compressed_payload lib) (mail_attachments mail) h)
            \<and> (\<forall>a \<in> set (mail_attachments mail). cid_of a \<noteq> [] \<longrightarrow>
                 image_compressor lib a = Inr (compressed_payload lib a))))"
proof (rule conjI)
  show "mail_message_id mail \<noteq> [] \<and> mail_date mail = Some d
      \<and> mail_from mail = (sn, sa) # fs \<and> mail_subject mail \<noteq> []
      \<and> parser_email_address lib sa = Inr se \<and> resolve_to lib mail = Inr tc
      \<and> (\<forall>a \<in> set (mail_attachments mail). cid_of a \<noteq> [] \<longrightarrow>
             image_compressor lib a = Inr (png a)) \<longrightarrow>
      (\<exists>e. eat lib mail = Inr e
         \<and> (\<forall>p ps. mail_text_plain mail = p # ps \<longrightarrow>
               content e ''text/plain'' = Some (plaintext_cleanup (mail_attachments mail) p))
         \<and> (\<forall>h hs. mail_text_html mail = h # hs \<longrightarrow>
               content e ''text/html'' = Some (html_inlining png (mail_attachments mail) h)))"
  proof (rule impI)
    assume hyps: "mail_message_id mail \<noteq> [] \<and> mail_date mail = Some d
      \<and> mail_from mail = (sn, sa) # fs \<and> mail_subject mail \<noteq> []
      \<and> parser_email_address lib sa = Inr se \<and> resolve_to lib mail = Inr tc
      \<and> (\<forall>a \<in> set (mail_attachments mail). cid_of a \<noteq> [] \<longrightarrow>
             image_compressor lib a = Inr (png a))"
    let ?e = "\<lparr>sent = d,
               sender = \<lparr>email = se, name = Some sn\<rparr>,
               subject = mail_subject mail,
               thread_topic = mail_headers mail ''Thread-Topic'',
               content = body_content png mail,
               to = tc,
               message_id = mail_message_id mail\<rparr>"
    have h1: "mail_message_id mail \<noteq> []" using hyps by (rule conjunct1)
    have h2: "mail_date mail = Some d" using hyps by blast
    have h3: "mail_from mail = (sn, sa) # fs" using hyps by blast
    have h4: "mail_subject mail \<noteq> []" using hyps by blast
    have h5: "parser_email_address lib sa = Inr se" using hyps by blast
    have h6: "resolve_to lib mail = Inr tc" using hyps by blast
    have h7: "mail_text_html mail \<noteq> [] \<longrightarrow>
         (\<forall>a \<in> set (mail_attachments mail). cid_of a \<noteq> [] \<longrightarrow>
            image_compressor lib a = Inr (png a))" using hyps by blast
    have digest: "eat lib mail = Inr ?e"
      by (rule eat_digest[OF h1 h2 h3 h4 h5 h6 h7])
    have c1: "content ?e ''text/plain'' = Some (plaintext_cleanup (mail_attachments mail) p)"
      if "mail_text_plain mail = p # ps" for p ps
      using that by (cases "mail_text_html mail") (simp_all add: body_content_def map_add_def)
    have c2: "content ?e ''text/html'' = Some (html_inlining png (mail_attachments mail) h)"
      if "mail_text_html mail = h # hs" for h hs
      using that by (simp add: body_content_def map_add_def)
    show "\<exists>e. eat lib mail = Inr e
      \<and> (\<forall>p ps. mail_text_plain mail = p # ps \<longrightarrow>
            content e ''text/plain'' = Some (plaintext_cleanup (mail_attachments mail) p))
      \<and> (\<forall>h hs. mail_text_html mail = h # hs \<longrightarrow>
            content e ''text/html'' = Some (html_inlining png (mail_attachments mail) h))"
    proof (intro exI conjI allI impI)
      show "eat lib mail = Inr ?e" by (rule digest)
      show "content ?e ''text/plain'' = Some (plaintext_cleanup (mail_attachments mail) p)"
        if "mail_text_plain mail = p # ps" for p ps
        using that by (rule c1)
      show "content ?e ''text/html'' = Some (html_inlining png (mail_attachments mail) h)"
        if "mail_text_html mail = h # hs" for h hs
        using that by (rule c2)
    qed
  qed
next
  show "\<forall>e. eat lib mail = Inr e \<longrightarrow>
         (\<forall>p ps. mail_text_plain mail = p # ps \<longrightarrow>
            content e ''text/plain'' = Some (plaintext_cleanup (mail_attachments mail) p))
       \<and> (\<forall>h hs. mail_text_html mail = h # hs \<longrightarrow>
            content e ''text/html''
              = Some (html_inlining (compressed_payload lib) (mail_attachments mail) h)
            \<and> (\<forall>a \<in> set (mail_attachments mail). cid_of a \<noteq> [] \<longrightarrow>
                 image_compressor lib a = Inr (compressed_payload lib a)))"
  proof (intro allI impI conjI ballI)
    fix e p ps
    assume "eat lib mail = Inr e" and "mail_text_plain mail = p # ps"
    then show "content e ''text/plain'' = Some (plaintext_cleanup (mail_attachments mail) p)"
      using eat_content(1)[of lib mail e] by (simp add: plain_loop_spec)
  next
    fix e h hs
    assume e: "eat lib mail = Inr e" and h: "mail_text_html mail = h # hs"
    from eat_content(2)[OF e] h obtain r where
      r: "html_loop lib (mail_attachments mail) h = Inr r" "content e ''text/html'' = Some r"
      by auto
    from html_loop_spec[OF r(1)] r(2)
    show "content e ''text/html''
            = Some (html_inlining (compressed_payload lib) (mail_attachments mail) h)"
      by simp
  next
    fix e h hs a
    assume e: "eat lib mail = Inr e" and h: "mail_text_html mail = h # hs"
      and a: "a \<in> set (mail_attachments mail)" "cid_of a \<noteq> []"
    from eat_content(2)[OF e] h obtain r where
      r: "html_loop lib (mail_attachments mail) h = Inr r"
      by auto
    from html_loop_spec[OF r] a
    show "image_compressor lib a = Inr (compressed_payload lib a)"
      by simp
  qed
qed

text \<open>
  C10. When the MIME parser gives several plain parts or several HTML parts, \<open>eat\<close>
  returns what it returns for the first part of each kind alone. Where digestion succeeds,
  the content mapping holds the rewritten first plain part and the rewritten first HTML part
  and nothing of the later parts, which are not read, not merged, and raise nothing.
\<close>

theorem eat_first_body_only:
  "eat lib (mail\<lparr>mail_text_plain := p # ps, mail_text_html := h # hs\<rparr>)
     = eat lib (mail\<lparr>mail_text_plain := [p], mail_text_html := [h]\<rparr>)
   \<and> eat lib (mail\<lparr>mail_text_plain := p # ps\<rparr>) = eat lib (mail\<lparr>mail_text_plain := [p]\<rparr>)
   \<and> eat lib (mail\<lparr>mail_text_html := h # hs\<rparr>) = eat lib (mail\<lparr>mail_text_html := [h]\<rparr>)
   \<and> (mail_message_id mail \<noteq> [] \<and> mail_date mail = Some d
        \<and> mail_from mail = (sn, sa) # fs \<and> mail_subject mail \<noteq> []
        \<and> parser_email_address lib sa = Inr se \<and> resolve_to lib mail = Inr tc
        \<and> (\<forall>a \<in> set (mail_attachments mail). cid_of a \<noteq> [] \<longrightarrow>
               image_compressor lib a = Inr (png a)) \<longrightarrow>
        eat lib (mail\<lparr>mail_text_plain := p # ps, mail_text_html := h # hs\<rparr>)
          = Inr \<lparr>sent = d,
                 sender = \<lparr>email = se, name = Some sn\<rparr>,
                 subject = mail_subject mail,
                 thread_topic = mail_headers mail ''Thread-Topic'',
                 content = [''text/plain'' \<mapsto> plaintext_cleanup (mail_attachments mail) p,
                            ''text/html'' \<mapsto> html_inlining png (mail_attachments mail) h],
                 to = tc,
                 message_id = mail_message_id mail\<rparr>)"
proof (intro conjI impI)
  show "eat lib (mail\<lparr>mail_text_plain := p # ps, mail_text_html := h # hs\<rparr>)
          = eat lib (mail\<lparr>mail_text_plain := [p], mail_text_html := [h]\<rparr>)"
    by (simp add: eat_def Let_def
          cong: prod.case_cong list.case_cong option.case_cong sum.case_cong if_cong)
  show "eat lib (mail\<lparr>mail_text_plain := p # ps\<rparr>) = eat lib (mail\<lparr>mail_text_plain := [p]\<rparr>)"
    by (simp add: eat_def Let_def
          cong: prod.case_cong list.case_cong option.case_cong sum.case_cong if_cong)
  show "eat lib (mail\<lparr>mail_text_html := h # hs\<rparr>) = eat lib (mail\<lparr>mail_text_html := [h]\<rparr>)"
    by (simp add: eat_def Let_def
          cong: prod.case_cong list.case_cong option.case_cong sum.case_cong if_cong)
next
  assume hyps: "mail_message_id mail \<noteq> [] \<and> mail_date mail = Some d
        \<and> mail_from mail = (sn, sa) # fs \<and> mail_subject mail \<noteq> []
        \<and> parser_email_address lib sa = Inr se \<and> resolve_to lib mail = Inr tc
        \<and> (\<forall>a \<in> set (mail_attachments mail). cid_of a \<noteq> [] \<longrightarrow>
               image_compressor lib a = Inr (png a))"
  let ?m = "mail\<lparr>mail_text_plain := p # ps, mail_text_html := h # hs\<rparr>"
  have "eat lib ?m =
           Inr \<lparr>sent = d,
                sender = \<lparr>email = se, name = Some sn\<rparr>,
                subject = mail_subject ?m,
                thread_topic = mail_headers ?m ''Thread-Topic'',
                content = body_content png ?m,
                to = tc,
                message_id = mail_message_id ?m\<rparr>"
  proof (rule eat_digest)
    show "mail_message_id ?m \<noteq> []" using hyps by simp
    show "mail_date ?m = Some d" using hyps by simp
    show "mail_from ?m = (sn, sa) # fs" using hyps by simp
    show "mail_subject ?m \<noteq> []" using hyps by simp
    show "parser_email_address lib sa = Inr se" using hyps by simp
    show "resolve_to lib ?m = Inr tc" using hyps by (simp add: resolve_to_def)
    show "mail_text_html ?m \<noteq> [] \<longrightarrow>
         (\<forall>a \<in> set (mail_attachments ?m). cid_of a \<noteq> [] \<longrightarrow>
            image_compressor lib a = Inr (png a))"
      using hyps by simp
  qed
  moreover have "body_content png ?m =
      [''text/plain'' \<mapsto> plaintext_cleanup (mail_attachments mail) p,
       ''text/html'' \<mapsto> html_inlining png (mail_attachments mail) h]"
    by (simp add: body_content_def)
  ultimately show "eat lib ?m
          = Inr \<lparr>sent = d,
                 sender = \<lparr>email = se, name = Some sn\<rparr>,
                 subject = mail_subject mail,
                 thread_topic = mail_headers mail ''Thread-Topic'',
                 content = [''text/plain'' \<mapsto> plaintext_cleanup (mail_attachments mail) p,
                            ''text/html'' \<mapsto> html_inlining png (mail_attachments mail) h],
                 to = tc,
                 message_id = mail_message_id mail\<rparr>"
    by simp
qed

text \<open>
  C3, as amended. For an attachment with a content-identifier that is not empty and whose
  marker \<open>src="cid:identifier"\<close> does not occur in the HTML body, the step of the loop
  first compresses the payload: if the compressor raises, the loop raises; if it succeeds, the
  body is left as it is and the loop goes on with the next attachment.
\<close>

theorem unreferenced_attachment_step:
  assumes "cid_of a \<noteq> []" and "\<not> str_in (src_marker a) body"
  shows "html_loop lib (a # as) body =
           (case compress_image lib (strip_newlines (payload a)) of
              Inl err \<Rightarrow> Inl err
            | Inr png \<Rightarrow> html_loop lib as body)"
  using assms
  by (simp add: html_loop_step str_replace_absent del: html_loop.simps split: sum.splits)

section \<open>Digestion of the example mails\<close>

lemma example_cid: "cid_of example_unreferenced = ''doc1''"
  by (simp add: cid_of_def example_unreferenced_def strip_chars_def)

lemma example_img_cid: "cid_of example_image = ''img1''"
  by (simp add: cid_of_def example_image_def strip_chars_def)

lemma example_enc: "encoding example_image = ''base64''"
  by (simp add: encoding_def example_image_def)

lemma example_payload: "filter (\<lambda>c. c \<noteq> CHR 0x0A) (payload example_image) = example_png"
  by (simp add: example_image_def example_png_def)

lemma example_compress: "image_compressor example_lib example_image = Inr example_png_compressed"
  by (simp add: image_compressor_def example_payload example_lib_def)

lemma example_compress_all:
  "\<forall>a \<in> set (mail_attachments example_mail). cid_of a \<noteq> [] \<longrightarrow>
     image_compressor example_lib a = Inr ((\<lambda>_. example_png_compressed) a)"
  by (simp add: example_mail_def example_compress)

lemma example_plain:
  "plaintext_cleanup (mail_attachments example_mail) ''Hi [cid:img1] all'' = ''Hi  all''"
  by (simp add: example_mail_def plaintext_cleanup_def example_img_cid cid_marker_def
        remove_all_def)

lemma example_html:
  "html_inlining (\<lambda>_. example_png_compressed) (mail_attachments example_mail)
     (''<img src='' @ [CHR 0x22] @ ''cid:img1'' @ [CHR 0x22] @ ''>'')
   = ''<img src='' @ [CHR 0x22] @ ''data:image/png;base64,'' @ example_png_compressed
       @ [CHR 0x22] @ ''>''"
  by (simp add: example_mail_def html_inlining_def example_img_cid src_marker_def data_uri_def
        substitute_all_def example_enc example_png_compressed_def)

lemma example_to:
  "resolve_to example_lib example_mail = Inr (Some \<lparr>email = ''dorm@mit.edu'', name = Some []\<rparr>)"
  by (simp add: resolve_to_def example_mail_def example_lib_def)

lemma example_sender:
  "parser_email_address example_lib ''ann@mit.edu'' = Inr ''ann@mit.edu''"
  by (simp add: example_lib_def)

text \<open>
  C3 as stated fails: an attachment that is not an image, with the content-identifier
  \<open>doc1\<close> that the HTML body does not mention, makes digestion fail in the compressor.
\<close>

theorem unreferenced_attachment_counterexample:
  "cid_of example_unreferenced = ''doc1''
   \<and> mail_attachments example_mail_pdf = [example_unreferenced]
   \<and> mail_text_html example_mail_pdf = [''<img src='' @ [CHR 0x22] @ ''cid:img1'' @ [CHR 0x22] @ ''>'']
   \<and> \<not> str_in (''src='' @ [CHR 0x22] @ ''cid:doc1'' @ [CHR 0x22])
             (''<img src='' @ [CHR 0x22] @ ''cid:img1'' @ [CHR 0x22] @ ''>'')
   \<and> eat example_lib example_mail_pdf = Inl (ImageError ''cannot identify image file'')"
  by (simp add: eat_def example_mail_pdf_def example_mail_def example_unreferenced_def
        example_lib_def example_png_def nibble_def truthy_str_def cid_of_def
        truthy_opt_def truthy_list_def truthy_opt_str_def strip_chars_def strip_newlines_def)

theorem unreferenced_attachment_step_witness:
  "html_loop example_lib [example_unreferenced] ''<p>hello</p>''
     = Inl (ImageError ''cannot identify image file'')
   \<and> html_loop example_lib [example_image] ''<p>hello</p>''
     = Inr ''<p>hello</p>''"
proof -
  have a: "cid_of example_unreferenced \<noteq> []"
    by (simp add: example_cid)
  have b: "\<not> str_in (src_marker example_unreferenced) ''<p>hello</p>''"
    by (simp add: src_marker_def example_cid)
  have c: "cid_of example_image \<noteq> []"
    by (simp add: example_img_cid)
  have d: "\<not> str_in (src_marker example_image) ''<p>hello</p>''"
    by (simp add: src_marker_def example_img_cid)
  have e: "compress_image example_lib (strip_newlines (payload example_unreferenced))
             = Inl (ImageError ''cannot identify image file'')"
    by (simp add: example_lib_def example_unreferenced_def strip_newlines_def example_png_def)
  have f: "compress_image example_lib (strip_newlines (payload example_image))
             = Inr example_png_compressed"
    using example_compress by (simp add: image_compressor_eq)
  show ?thesis
    using unreferenced_attachment_step[OF a b, of example_lib "[]"]
          unreferenced_attachment_step[OF c d, of example_lib "[]"]
    by (simp add: e f del: html_loop.simps(2))
qed

theorem eat_rewrites_bodies_witness:
  "eat example_lib example_mail =
     Inr \<lparr>sent = (2024, 1, 1, 10, 0, 0, 0),
          sender = \<lparr>email = ''ann@mit.edu'', name = Some ''Ann''\<rparr>,
          subject = ''Study break'',
          thread_topic = None,
          content = [''text/plain'' \<mapsto> ''Hi  all'',
                     ''text/html'' \<mapsto> ''<img src='' @ [CHR 0x22]
                        @ ''data:image/png;base64,'' @ example_png_compressed @ [CHR 0x22]
                        @ ''>''],
          to = Some \<lparr>email = ''dorm@mit.edu'', name = Some []\<rparr>,
          message_id = ''<1@mit.edu>''\<rparr>
   \<and> plaintext_cleanup (mail_attachments example_mail) ''Hi [cid:img1] all'' = ''Hi  all''
   \<and> html_inlining (\<lambda>_. example_png_compressed) (mail_attachments example_mail)
        (''<img src='' @ [CHR 0x22] @ ''cid:img1'' @ [CHR 0x22] @ ''>'')
      = ''<img src='' @ [CHR 0x22] @ ''data:image/png;base64,'' @ example_png_compressed
          @ [CHR 0x22] @ ''>''"
proof -
  have hyps: "mail_message_id example_mail \<noteq> []
      \<and> mail_date example_mail = Some (2024, 1, 1, 10, 0, 0, 0)
      \<and> mail_from example_mail = (''Ann'', ''ann@mit.edu'') # []
      \<and> mail_subject example_mail \<noteq> []
      \<and> parser_email_address example_lib ''ann@mit.edu'' = Inr ''ann@mit.edu''
      \<and> resolve_to example_lib example_mail
           = Inr (Some \<lparr>email = ''dorm@mit.edu'', name = Some []\<rparr>)
      \<and> (\<forall>a \<in> set (mail_attachments example_mail). cid_of a \<noteq> [] \<longrightarrow>
             image_compressor example_lib a = Inr ((\<lambda>_. example_png_compressed) a))"
    using example_to example_sender example_compress_all
    by (simp add: example_mail_def)
  have inst: "\<exists>e. eat example_lib example_mail = Inr e
      \<and> (\<forall>p ps. mail_text_plain example_mail = p # ps \<longrightarrow>
            content e ''text/plain'' = Some (plaintext_cleanup (mail_attachments example_mail) p))
      \<and> (\<forall>h hs. mail_text_html example_mail = h # hs \<longrightarrow>
            content e ''text/html''
              = Some (html_inlining (\<lambda>_. example_png_compressed)
                        (mail_attachments example_mail) h))"
    using eat_rewrites_bodies[where mail = example_mail and lib = example_lib
        and d = "(2024, 1, 1, 10, 0, 0, 0)" and sn = "''Ann''" and sa = "''ann@mit.edu''"
        and fs = "[]" and se = "''ann@mit.edu''"
        and tc = "Some \<lparr>email = ''dorm@mit.edu'', name = Some []\<rparr>"
        and png = "\<lambda>_. example_png_compressed", THEN conjunct1]
    by (rule mp) (rule hyps)
  then obtain e where e: "eat example_lib example_mail = Inr e"
    and p: "\<forall>p ps. mail_text_plain example_mail = p # ps \<longrightarrow>
            content e ''text/plain'' = Some (plaintext_cleanup (mail_attachments example_mail) p)"
    and h: "\<forall>h hs. mail_text_html example_mail = h # hs \<longrightarrow>
            content e ''text/html''
              = Some (html_inlining (\<lambda>_. example_png_compressed)
                        (mail_attachments example_mail) h)"
    by (elim exE conjE)
  have tp: "mail_text_plain example_mail = ''Hi [cid:img1] all'' # []"
    and th: "mail_text_html example_mail
               = (''<img src='' @ [CHR 0x22] @ ''cid:img1'' @ [CHR 0x22] @ ''>'') # []"
    by (simp_all add: example_mail_def)
  have e_eq: "e = \<lparr>sent = (2024, 1, 1, 10, 0, 0, 0),
          sender = \<lparr>email = ''ann@mit.edu'', name = Some ''Ann''\<rparr>,
          subject = ''Study break'',
          thread_topic = None,
          content = body_content (\<lambda>_. example_png_compressed) example_mail,
          to = Some \<lparr>email = ''dorm@mit.edu'', name = Some []\<rparr>,
          message_id = ''<1@mit.edu>''\<rparr>"
  proof -
    have "eat example_lib example_mail = Inr \<lparr>sent = (2024, 1, 1, 10, 0, 0, 0),
          sender = \<lparr>email = ''ann@mit.edu'', name = Some ''Ann''\<rparr>,
          subject = mail_subject example_mail,
          thread_topic = mail_headers example_mail ''Thread-Topic'',
          content = body_content (\<lambda>_. example_png_compressed) example_mail,
          to = Some \<lparr>email = ''dorm@mit.edu'', name = Some []\<rparr>,
          message_id = mail_message_id example_mail\<rparr>"
    proof (rule eat_digest)
      show "mail_message_id example_mail \<noteq> []" using hyps by blast
      show "mail_date example_mail = Some (2024, 1, 1, 10, 0, 0, 0)" using hyps by blast
      show "mail_from example_mail = (''Ann'', ''ann@mit.edu'') # []" using hyps by blast
      show "mail_subject example_mail \<noteq> []" using hyps by blast
      show "parser_email_address example_lib ''ann@mit.edu'' = Inr ''ann@mit.edu''"
        by (rule example_sender)
      show "resolve_to example_lib example_mail
              = Inr (Some \<lparr>email = ''dorm@mit.edu'', name = Some []\<rparr>)"
        by (rule example_to)
      show "mail_text_html example_mail \<noteq> [] \<longrightarrow>
           (\<forall>a \<in> set (mail_attachments example_mail). cid_of a \<noteq> [] \<longrightarrow>
              image_compressor example_lib a = Inr ((\<lambda>_. example_png_compressed) a))"
        using example_compress_all by blast
    qed
    with e show ?thesis by (simp add: example_mail_def)
  qed
  have bc: "body_content (\<lambda>_. example_png_compressed) example_mail
      = [''text/plain'' \<mapsto> ''Hi  all'',
         ''text/html'' \<mapsto> ''<img src='' @ [CHR 0x22]
            @ ''data:image/png;base64,'' @ example_png_compressed @ [CHR 0x22] @ ''>'']"
    using example_plain example_html
    by (simp add: body_content_def tp th)
  show ?thesis
    using e e_eq bc example_plain example_html by simp
qed

theorem eat_first_body_only_witness:
  "eat example_lib
     (example_mail\<lparr>mail_text_plain := [''Hi [cid:img1] all'', ''second part''],
                   mail_text_html := [''<img src='' @ [CHR 0x22] @ ''cid:img1'' @ [CHR 0x22] @ ''>'',
                                      ''<p>two</p>'']\<rparr>)
   = Inr \<lparr>sent = (2024, 1, 1, 10, 0, 0, 0),
          sender = \<lparr>email = ''ann@mit.edu'', name = Some ''Ann''\<rparr>,
          subject = ''Study break'',
          thread_topic = None,
          content = [''text/plain'' \<mapsto> ''Hi  all'',
                     ''text/html'' \<mapsto> ''<img src='' @ [CHR 0x22]
                        @ ''data:image/png;base64,'' @ example_png_compressed @ [CHR 0x22]
                        @ ''>''],
          to = Some \<lparr>email = ''dorm@mit.edu'', name = Some []\<rparr>,
          message_id = ''<1@mit.edu>''\<rparr>"
proof -
  have hyps: "mail_message_id example_mail \<noteq> []
      \<and> mail_date example_mail = Some (2024, 1, 1, 10, 0, 0, 0)
      \<and> mail_from example_mail = (''Ann'', ''ann@mit.edu'') # []
      \<and> mail_subject example_mail \<noteq> []
      \<and> parser_email_address example_lib ''ann@mit.edu'' = Inr ''ann@mit.edu''
      \<and> resolve_to example_lib example_mail
           = Inr (Some \<lparr>email = ''dorm@mit.edu'', name = Some []\<rparr>)
      \<and> (\<forall>a \<in> set (mail_attachments example_mail). cid_of a \<noteq> [] \<longrightarrow>
             image_compressor example_lib a = Inr ((\<lambda>_. example_png_compressed) a))"
    using example_to example_sender example_compress_all
    by (simp add: example_mail_def)
  have "eat example_lib
     (example_mail\<lparr>mail_text_plain := ''Hi [cid:img1] all'' # [''second part''],
                   mail_text_html := (''<img src='' @ [CHR 0x22] @ ''cid:img1'' @ [CHR 0x22] @ ''>'')
                                      # [''<p>two</p>'']\<rparr>)
   = Inr \<lparr>sent = (2024, 1, 1, 10, 0, 0, 0),
          sender = \<lparr>email = ''ann@mit.edu'', name = Some ''Ann''\<rparr>,
          subject = mail_subject example_mail,
          thread_topic = mail_headers example_mail ''Thread-Topic'',
          content = [''text/plain'' \<mapsto>
                       plaintext_cleanup (mail_attachments example_mail) ''Hi [cid:img1] all'',
                     ''text/html'' \<mapsto>
                       html_inlining (\<lambda>_. example_png_compressed)
                         (mail_attachments example_mail)
                         (''<img src='' @ [CHR 0x22] @ ''cid:img1'' @ [CHR 0x22] @ ''>'')],
          to = Some \<lparr>email = ''dorm@mit.edu'', name = Some []\<rparr>,
          message_id = mail_message_id example_mail\<rparr>"
    using eat_first_body_only[where mail = example_mail and lib = example_lib
        and p = "''Hi [cid:img1] all''" and ps = "[''second part'']"
        and h = "''<img src='' @ [CHR 0x22] @ ''cid:img1'' @ [CHR 0x22] @ ''>''"
        and hs = "[''<p>two</p>'']"
        and d = "(2024, 1, 1, 10, 0, 0, 0)" and sn = "''Ann''" and sa = "''ann@mit.edu''"
        and fs = "[]" and se = "''ann@mit.edu''"
        and tc = "Some \<lparr>email = ''dorm@mit.edu'', name = Some []\<rparr>"
        and png = "\<lambda>_. example_png_compressed",
        THEN conjunct2, THEN conjunct2, THEN conjunct2]
    by (rule mp) (rule hyps)
  then show ?thesis
    by (simp only: example_plain example_html) (simp add: example_mail_def)
qed

section \<open>The converter\<close>

lemma unescape_no_amp: "CHR ''&'' \<notin> set s \<Longrightarrow> unescape lib s = s"
  by (simp add: unescape_def)

lemma amp_pending_no_amp: "CHR ''&'' \<notin> set s \<Longrightarrow> \<not> amp_pending s"
  by (auto simp: amp_pending_def Let_def dest: in_set_dropD)

lemma goahead_no_lt:
  "CHR ''<'' \<notin> set s \<Longrightarrow>
   goahead lib s = (if s = [] then [] else if amp_pending s then []
                    else [HandleData (unescape lib s)])"
  by (subst goahead.simps) simp

lemma feed_plain:
  "CHR ''<'' \<notin> set s \<Longrightarrow> CHR ''&'' \<notin> set s \<Longrightarrow>
   feed lib s = (if s = [] then [] else [HandleData s])"
  by (simp add: feed_def goahead_no_lt amp_pending_no_amp unescape_no_amp)

lemma strip_Nil: "strip [] = []"
  by (simp add: strip_def)

lemma dispatch_data: "foldl dispatch acc (map HandleData parts) = acc @ parts"
  by (induction parts arbitrary: acc) (simp_all add: handle_data_def)

text \<open>The group of \<open>html._charref\<close> is a prefix of the text after the ampersand.\<close>

lemma semi_prefix: "\<exists>t. r = semi r @ t"
  by (auto simp: semi_def startswith_iff)

lemma charref_group_prefix:
  assumes "charref_group cs = Some g"
  shows "\<exists>r. cs = g @ r"
proof (cases cs)
  case Nil
  with assms show ?thesis by (simp add: charref_group_def)
next
  case (Cons c ds)
  show ?thesis
  proof (cases "c = CHR ''#''")
    case False
    let ?nm = "take 32 (takeWhile name_char cs)"
    from False Cons assms have g: "g = ?nm @ semi (drop (length ?nm) cs)"
      by (auto simp: charref_group_def Let_def split: if_splits)
    obtain t where t: "drop (length ?nm) cs = semi (drop (length ?nm) cs) @ t"
      using semi_prefix by blast
    have "?nm = take (length ?nm) cs"
      by (metis append_eq_conv_conj append_take_drop_id takeWhile_dropWhile_id take_append
            length_take min.cobounded1 take_all_iff take_take length_takeWhile_le min.absorb2
            min.commute)
    then have "cs = ?nm @ drop (length ?nm) cs"
      by (metis append_take_drop_id)
    with t g have "cs = g @ t" by (metis append.assoc)
    then show ?thesis ..
  next
    case True
    let ?digs = "takeWhile is_dec ds"
    show ?thesis
    proof (cases "?digs = []")
      case False
      with True Cons assms have g: "g = c # ?digs @ semi (drop (length ?digs) ds)"
        by (simp add: charref_group_def Let_def)
      obtain t where t: "drop (length ?digs) ds = semi (drop (length ?digs) ds) @ t"
        using semi_prefix by blast
      have "ds = ?digs @ drop (length ?digs) ds"
        by (metis takeWhile_dropWhile_id append_eq_conv_conj)
      with t have "ds = ?digs @ semi (drop (length ?digs) ds) @ t" by metis
      with g Cons have "cs = g @ t" by simp
      then show ?thesis ..
    next
      case nodigs: True
      with \<open>c = CHR ''#''\<close> Cons assms obtain x hs where ds: "ds = x # hs"
        and hex: "takeWhile is_hex hs \<noteq> []"
        and g: "g = c # x # takeWhile is_hex hs @ semi (drop (length (takeWhile is_hex hs)) hs)"
        by (cases ds) (auto simp: charref_group_def Let_def split: if_splits)
      let ?hex = "takeWhile is_hex hs"
      obtain t where t: "drop (length ?hex) hs = semi (drop (length ?hex) hs) @ t"
        using semi_prefix by blast
      have "hs = ?hex @ drop (length ?hex) hs"
        by (metis takeWhile_dropWhile_id append_eq_conv_conj)
      with t have "hs = ?hex @ semi (drop (length ?hex) hs) @ t" by metis
      with g Cons ds have "cs = g @ t" by simp
      then show ?thesis ..
    qed
  qed
qed

text \<open>
  A text in which \<open>html.unescape\<close> resolves no reference is left as it is: the references
  in it are replaced by themselves.
\<close>

lemma resolves_drop: "resolves_charref lib (drop n cs) \<Longrightarrow> resolves_charref lib cs"
proof (induction cs arbitrary: n)
  case Nil
  then show ?case by simp
next
  case (Cons c cs)
  then show ?case by (cases n) auto
qed

lemma charref_sub_id: "\<not> resolves_charref lib s \<Longrightarrow> charref_sub lib s = s"
proof (induction "length s" arbitrary: s rule: less_induct)
  case less
  show ?case
  proof (cases s)
    case Nil
    then show ?thesis by simp
  next
    case (Cons c cs)
    from less.prems Cons have rest: "\<not> resolves_charref lib cs" by simp
    have ih: "charref_sub lib cs = cs"
      using less.hyps[of cs] rest Cons by simp
    show ?thesis
    proof (cases "c = CHR ''&''")
      case False
      with Cons ih show ?thesis by simp
    next
      case True
      show ?thesis
      proof (cases "charref_group cs")
        case None
        with True Cons ih show ?thesis by simp
      next
        case (Some g)
        with True less.prems Cons have same: "replace_charref lib g = CHR ''&'' # g" by simp
        from charref_group_prefix[OF Some] obtain r where r: "cs = g @ r" ..
        then have d: "drop (length g) cs = r" by simp
        from rest have "\<not> resolves_charref lib (drop (length g) cs)"
          using resolves_drop by blast
        with d have "\<not> resolves_charref lib r" by simp
        moreover have "length r < length s" using Cons r by simp
        ultimately have "charref_sub lib r = r" by (rule less.hyps[rotated])
        with True Some same d r Cons show ?thesis by simp
      qed
    qed
  qed
qed

lemma unescape_id: "\<not> resolves_charref lib s \<Longrightarrow> unescape lib s = s"
  by (simp add: unescape_def charref_sub_id)

text \<open>The group stops before a \<open><\<close>, so each piece of text has the references of the whole.\<close>

lemma semi_drop_lt:
  "n \<le> length ds \<Longrightarrow> semi (drop n (ds @ CHR ''<'' # ys)) = semi (drop n ds)"
  by (cases "drop n ds") (auto simp: semi_def)

lemma charref_group_lt: "charref_group (xs @ CHR ''<'' # ys) = charref_group xs"
proof (cases xs)
  case Nil
  then show ?thesis by (simp add: charref_group_def name_char_def)
next
  case (Cons c ds)
  have dec: "takeWhile is_dec (zs @ CHR ''<'' # ys) = takeWhile is_dec zs" for zs
    by (rule takeWhile_tail) (simp add: is_dec_def)
  have hex: "takeWhile is_hex (zs @ CHR ''<'' # ys) = takeWhile is_hex zs" for zs
    by (rule takeWhile_tail) (simp add: is_hex_def)
  have nm: "takeWhile name_char (zs @ CHR ''<'' # ys) = takeWhile name_char zs" for zs
    by (rule takeWhile_tail) (simp add: name_char_def)
  show ?thesis
  proof (cases "c = CHR ''#''")
    case False
    have len: "length (take 32 (takeWhile name_char (c # ds))) \<le> length (c # ds)"
      using length_takeWhile_le[of name_char "c # ds"] by simp
    have "takeWhile name_char ((c # ds) @ CHR ''<'' # ys) = takeWhile name_char (c # ds)"
      by (rule nm)
    moreover have "semi (drop (length (take 32 (takeWhile name_char (c # ds))))
                          ((c # ds) @ CHR ''<'' # ys))
                   = semi (drop (length (take 32 (takeWhile name_char (c # ds)))) (c # ds))"
      using len by (rule semi_drop_lt)
    ultimately show ?thesis
      using False Cons
      by (simp add: charref_group_def Let_def del: takeWhile.simps drop_Cons' take_Cons')
  next
    case True
    have s1: "semi (drop (length (takeWhile is_dec ds)) (ds @ CHR ''<'' # ys))
                = semi (drop (length (takeWhile is_dec ds)) ds)"
      by (rule semi_drop_lt) (rule length_takeWhile_le)
    show ?thesis
    proof (cases ds)
      case Nil
      with True Cons show ?thesis by (simp add: charref_group_def is_dec_def)
    next
      case ds: (Cons x hs)
      have s2: "semi (drop (length (takeWhile is_hex hs)) (hs @ CHR ''<'' # ys))
                  = semi (drop (length (takeWhile is_hex hs)) hs)"
        by (rule semi_drop_lt) (rule length_takeWhile_le)
      have "charref_group (CHR ''#'' # (x # hs) @ CHR ''<'' # ys) = charref_group (CHR ''#'' # x # hs)"
        using dec[of "x # hs"] hex[of hs] s1[unfolded ds] s2
        by (simp add: charref_group_def Let_def del: takeWhile.simps)
      with True Cons ds show ?thesis by simp
    qed
  qed
qed

lemma resolves_append1:
  "resolves_charref lib xs \<Longrightarrow> resolves_charref lib (xs @ CHR ''<'' # ys)"
  by (induction xs) (auto simp: charref_group_lt)

lemma resolves_append2: "resolves_charref lib ys \<Longrightarrow> resolves_charref lib (xs @ ys)"
  by (induction xs) auto

lemma has_markup_append2: "has_markup ys \<Longrightarrow> has_markup (xs @ ys)"
proof (induction xs)
  case Nil
  then show ?case by simp
next
  case (Cons x xs)
  then have "has_markup (xs @ ys)" by simp
  then show ?case by (cases "xs @ ys") auto
qed

lemma has_markup_at: "opens_markup c \<Longrightarrow> has_markup (xs @ CHR ''<'' # c # cs)"
  by (rule has_markup_append2) simp

lemma last_chunk_append:
  "takeWhile (\<lambda>c. c \<noteq> CHR ''<'') (rev (xs @ CHR ''<'' # ys))
     = takeWhile (\<lambda>c. c \<noteq> CHR ''<'') (rev ys)"
proof -
  let ?P = "\<lambda>c. c \<noteq> CHR ''<''"
  have r: "rev (xs @ CHR ''<'' # ys) = rev ys @ CHR ''<'' # rev xs" by simp
  show ?thesis
  proof (cases "\<forall>c \<in> set (rev ys). ?P c")
    case True
    then have "takeWhile ?P (rev ys @ CHR ''<'' # rev xs)
                 = rev ys @ takeWhile ?P (CHR ''<'' # rev xs)"
      by (intro takeWhile_append2) simp
    moreover from True have "takeWhile ?P (rev ys) = rev ys"
      by (intro takeWhile_eq_all_conv[THEN iffD2])
    ultimately show ?thesis
      by (simp only: r takeWhile.simps) simp
  next
    case False
    then obtain x where "x \<in> set (rev ys)" and "\<not> ?P x" by blast
    then have "takeWhile ?P (rev ys @ CHR ''<'' # rev xs) = takeWhile ?P (rev ys)"
      by (rule takeWhile_append1)
    then show ?thesis by (simp only: r)
  qed
qed

lemma withheld_append:
  assumes "ys \<noteq> []"
  shows "withheld (xs @ CHR ''<'' # ys) = withheld ys"
proof -
  from assms have "last (xs @ CHR ''<'' # ys) = last ys" by simp
  moreover have "xs @ CHR ''<'' # ys \<noteq> []" by simp
  ultimately show ?thesis
    using assms unfolding withheld_def by (simp add: last_chunk_append del: rev_append rev.simps)
qed

lemma withheld_no_lt:
  assumes "CHR ''<'' \<notin> set s"
  shows "withheld s = (s \<noteq> [] \<and> amp_pending s)"
proof -
  from assms have "\<forall>c \<in> set (rev s). c \<noteq> CHR ''<''" by auto
  then have t: "takeWhile (\<lambda>c. c \<noteq> CHR ''<'') (rev s) = rev s"
    by (intro takeWhile_eq_all_conv[THEN iffD2])
  have "last s \<noteq> CHR ''<''" if "s \<noteq> []"
  proof
    assume "last s = CHR ''<''"
    with last_in_set[OF that] have "CHR ''<'' \<in> set s" by simp
    with assms show False by simp
  qed
  then show ?thesis
    unfolding withheld_def by (simp only: t rev_rev_ident) blast
qed

lemma split_at_lt:
  "CHR ''<'' \<in> set s \<Longrightarrow>
   s = take (length (takeWhile (\<lambda>c. c \<noteq> CHR ''<'') s)) s @ CHR ''<'' #
       drop (Suc (length (takeWhile (\<lambda>c. c \<noteq> CHR ''<'') s))) s"
  by (induction s) auto

text \<open>
  The calls the parser makes for a text with no markup and no character reference, none of
  it kept back: \<open>handle_data\<close> only, and the pieces it is given make up the text.
\<close>

lemma goahead_text:
  "\<not> has_markup s \<Longrightarrow> \<not> resolves_charref lib s \<Longrightarrow> \<not> withheld s \<Longrightarrow>
   \<exists>parts. goahead lib s = map HandleData parts \<and> concat parts = s"
proof (induction "length s" arbitrary: s rule: less_induct)
  case less
  show ?case
  proof (cases "CHR ''<'' \<in> set s")
    case False
    show ?thesis
    proof (cases "s = []")
      case True
      then have "goahead lib s = map HandleData [] \<and> concat [] = s"
        by (simp add: goahead_no_lt)
      then show ?thesis by (rule exI)
    next
      case ne: False
      with False less.prems have "\<not> amp_pending s" by (simp add: withheld_no_lt)
      with False ne less.prems have "goahead lib s = map HandleData [s] \<and> concat [s] = s"
        by (simp add: goahead_no_lt unescape_id)
      then show ?thesis by (rule exI)
    qed
  next
    case True
    define j where "j = length (takeWhile (\<lambda>c. c \<noteq> CHR ''<'') s)"
    define chunk where "chunk = take j s"
    define more where "more = drop (Suc j) s"
    have s: "s = chunk @ CHR ''<'' # more"
      unfolding chunk_def more_def j_def using True by (rule split_at_lt)
    have ne: "s \<noteq> []" using True by auto
    have more_ne: "more \<noteq> []"
    proof
      assume "more = []"
      with s have "last s = CHR ''<''" by simp
      with ne less.prems show False by (simp add: withheld_def)
    qed
    then obtain c cs where more: "more = c # cs" by (cases more) auto
    have nm: "\<not> opens_markup c"
      using less.prems(1) s more has_markup_at by metis
    have p1: "\<not> has_markup more"
      using less.prems(1) s has_markup_append2[of more "chunk @ [CHR ''<'']"] by auto
    have p2: "\<not> resolves_charref lib more"
      using less.prems(2) s resolves_append2[of lib more "chunk @ [CHR ''<'']"] by auto
    have p3: "\<not> withheld more"
      using less.prems(3) s more_ne withheld_append[of more chunk] by metis
    have p4: "\<not> resolves_charref lib chunk"
      using less.prems(2) s resolves_append1 by metis
    have "length more < length s" using s by simp
    from less.hyps[OF this p1 p2 p3] obtain parts
      where parts: "goahead lib more = map HandleData parts" "concat parts = more"
      by (elim exE conjE)
    have g: "goahead lib s =
        (if 0 < j then [HandleData (unescape lib chunk)] else [])
          @ [HandleData ''<''] @ goahead lib more"
      using True ne nm more
      by (subst goahead.simps) (simp add: j_def[symmetric] chunk_def more_def[symmetric])
    let ?parts = "(if 0 < j then [chunk] else []) @ [''<''] @ parts"
    have c0: "\<not> 0 < j \<Longrightarrow> chunk = []" by (simp add: chunk_def)
    have "goahead lib s = map HandleData ?parts"
      by (simp add: g parts p4 unescape_id)
    moreover have "concat ?parts = s"
      using s parts c0 by (cases "0 < j") simp_all
    ultimately have "goahead lib s = map HandleData ?parts \<and> concat ?parts = s" ..
    then show ?thesis by (rule exI)
  qed
qed

text \<open>
  C2. The plaintext of an email is the \<open>text/plain\<close> content when there is one; otherwise
  the converter's text of the \<open>text/html\<close> content when there is one; otherwise empty.
\<close>

theorem plaintext_cases:
  "(\<forall>t. content self ''text/plain'' = Some t \<longrightarrow> plaintext lib self = t)
   \<and> (\<forall>h. content self ''text/plain'' = None \<and> content self ''text/html'' = Some h \<longrightarrow>
         plaintext lib self = html2text lib h)
   \<and> (content self ''text/plain'' = None \<and> content self ''text/html'' = None \<longrightarrow>
         plaintext lib self = [])"
  by (auto simp: plaintext_def dom_def)

theorem plaintext_cases_witness:
  "plaintext example_htmllib (plain_email ''hello'') = ''hello''
   \<and> plaintext example_htmllib ((plain_email ''hello'')\<lparr>content := [''text/html'' \<mapsto> ''a &amp; b '']\<rparr>)
       = html2text example_htmllib ''a &amp; b ''
   \<and> plaintext example_htmllib ((plain_email ''hello'')\<lparr>content := Map.empty\<rparr>) = []"
  using plaintext_cases[of "plain_email ''hello''" example_htmllib]
        plaintext_cases[of "(plain_email ''hello'')\<lparr>content := [''text/html'' \<mapsto> ''a &amp; b '']\<rparr>"
          example_htmllib]
        plaintext_cases[of "(plain_email ''hello'')\<lparr>content := Map.empty\<rparr>" example_htmllib]
  by (simp add: plain_email_def)

text \<open>
  C9, as amended. For a text in which no \<open><\<close> opens markup and \<open>html.unescape\<close>
  resolves no character reference, and of which the parser keeps nothing back, the converter
  returns the text with the white space at both ends removed. A \<open><\<close> that opens no
  markup, an ampersand that starts no reference and a reference that the library leaves as
  it is written are text. What the parser keeps back (a last \<open><\<close>, a pending ampersand)
  is lost because \<open>html2text\<close> never calls \<open>close()\<close>; the statement says nothing of
  those texts.
\<close>

theorem html2text_plain:
  assumes "\<not> has_markup s" and "\<not> resolves_charref lib s" and "\<not> withheld s"
  shows "html2text lib s = strip s"
proof -
  from goahead_text[OF assms] obtain parts
    where "goahead lib s = map HandleData parts" and "concat parts = s"
    by (elim exE conjE)
  then show ?thesis
    by (simp add: html2text_def feed_def get_text_def dispatch_data)
qed

theorem html2text_plain_witness:
  "html2text example_htmllib ''  AT&T: 1 < 2 & more  '' = ''AT&T: 1 < 2 & more''"
proof -
  have 1: "\<not> has_markup ''  AT&T: 1 < 2 & more  ''"
    by (simp add: opens_markup_def)
  have 2: "\<not> resolves_charref example_htmllib ''  AT&T: 1 < 2 & more  ''"
    by (simp add: charref_group_def name_char_def semi_def replace_charref_def
          example_htmllib_def)
  have 3: "\<not> withheld ''  AT&T: 1 < 2 & more  ''"
    by (simp add: withheld_def amp_pending_def is_space_def)
  show ?thesis
    using html2text_plain[OF 1 2 3]
    by (simp add: strip_def is_space_def)
qed

text \<open>
  C9 as stated fails: \<open>a &amp; b\<close> has no tag, and the converter returns \<open>a & b\<close>
  for it, which is not the text itself.
\<close>

theorem html2text_plain_counterexample:
  "CHR ''<'' \<notin> set ''a &amp; b'' \<and> strip ''a &amp; b'' = ''a &amp; b''
   \<and> html2text example_htmllib ''a &amp; b'' = ''a & b''"
  by (simp add: html2text_def feed_def goahead_no_lt amp_pending_def get_text_def strip_def
        is_space_def handle_data_def unescape_def charref_group_def name_char_def semi_def
        replace_charref_def example_htmllib_def)

text \<open>
  The texts the amended C9 leaves out. A text without \<open><\<close> that ends in an ampersand with
  no white space or semicolon after it is kept back by the parser, and so is a last \<open><\<close>.
  \<open>html2text\<close> never calls \<open>close()\<close>, which would flush them: nothing of the first
  reaches the output, and the second loses its last character.
\<close>

lemma html2text_pending: 
  "CHR ''<'' \<notin> set s \<Longrightarrow> amp_pending s \<Longrightarrow> html2text lib s = []"
  by (simp add: html2text_def feed_def goahead_no_lt get_text_def strip_def)

lemma html2text_pending_ampersand: "html2text lib ''AT&T'' = []"
  by (simp add: html2text_def feed_def goahead_no_lt amp_pending_def get_text_def strip_def
        is_space_def)

lemma html2text_last_lt: "html2text lib ''1 <'' = ''1''"
  by (simp add: html2text_def feed_def goahead.simps[of lib "''1 <''"] get_text_def strip_def
        is_space_def unescape_def handle_data_def)

text \<open>
  C6. The converter's own table is not what resolves a named reference: the parser is
  created with \<open>convert_charrefs\<close> at its default, so the text goes through
  \<open>html.unescape\<close> and the table \<open>html5\<close>. A name that table does not know stays in the
  output as it was written, and \<open>nbsp\<close> gives the no-break space, code point 160.
\<close>

theorem html2text_entities:
  "(html5 lib ''bogus;'' = None \<and> html5 lib ''bogus'' = None \<and> html5 lib ''bogu'' = None
      \<and> html5 lib ''bog'' = None \<and> html5 lib ''bo'' = None \<longrightarrow>
      html2text lib ''x&bogus;y'' = ''x&bogus;y'')
   \<and> (html5 lib ''nbsp;'' = Some [CHR 0xA0] \<longrightarrow>
      html2text lib ''a&nbsp;b'' = [CHR ''a'', CHR 0xA0, CHR ''b''])"
  by (simp add: html2text_def feed_def goahead_no_lt amp_pending_def get_text_def strip_def
        is_space_def handle_data_def unescape_def charref_group_def name_char_def semi_def
        replace_charref_def numeral_eq_Suc)

theorem html2text_entities_witness:
  "html2text example_htmllib ''x&bogus;y'' = ''x&bogus;y''
   \<and> html2text example_htmllib ''a&nbsp;b'' = [CHR ''a'', CHR 0xA0, CHR ''b'']"
  using html2text_entities[of example_htmllib]
  by (simp add: example_htmllib_def)

lemma handle_entityref_table:
  "handle_entityref n parts = parts @ [case entities n of Some v \<Rightarrow> v | None \<Rightarrow> []]"
  by (simp add: handle_entityref_def)

lemma feed_no_entityref:
  "CHR ''<'' \<notin> set s \<Longrightarrow> EntityRef n \<notin> set (feed lib s)"
  by (simp add: feed_def goahead_no_lt)

section \<open>Facts about the matcher\<close>

lemma OneOrMore_memD:
  "st' \<in> set (rx_match ic (OneOrMore a) st) \<Longrightarrow>
     \<exists>st1 \<in> set (rx_match ic a st). length (rest st1) < length (rest st)
        \<and> (st' = st1 \<or> st' \<in> set (rx_match ic (OneOrMore a) st1))"
  by (subst (asm) rx_match.simps(8)) auto

lemma rx_match_consume:
  "st' \<in> set (rx_match ic r st) \<Longrightarrow>
   \<exists>w. rest st = w @ rest st' \<and> before st' = rev w @ before st"
proof (induction ic r st arbitrary: st' rule: rx_match.induct)
  case (1 ic st)
  then show ?case by simp
next
  case (2 ic x st)
  then show ?case by (auto split: list.splits if_splits)
next
  case (3 ic items st)
  then show ?case by (auto split: list.splits if_splits)
next
  case (4 ic st)
  then show ?case by (auto split: if_splits)
next
  case (5 ic a b st)
  from "5.prems" obtain st1 where st1: "st1 \<in> set (rx_match ic a st)"
    and st': "st' \<in> set (rx_match ic b st1)" by auto
  from "5.IH"(1)[OF st1] obtain w1 where
    w1: "rest st = w1 @ rest st1" "before st1 = rev w1 @ before st" by auto
  from "5.IH"(2)[OF st1 st'] obtain w2 where
    w2: "rest st1 = w2 @ rest st'" "before st' = rev w2 @ before st1" by auto
  from w1 w2 have "rest st = (w1 @ w2) @ rest st' \<and> before st' = rev (w1 @ w2) @ before st"
    by simp
  then show ?case by blast
next
  case (6 ic a b st)
  then show ?case by auto
next
  case (7 ic a st)
  then show ?case by auto
next
  case (8 ic a st)
  from OneOrMore_memD[OF "8.prems"(1)] obtain st1 where st1: "st1 \<in> set (rx_match ic a st)"
    and less: "length (rest st1) < length (rest st)"
    and disj: "st' = st1 \<or> st' \<in> set (rx_match ic (OneOrMore a) st1)"
    by auto
  from "8.IH"(1)[OF st1] obtain w1 where
    w1: "rest st = w1 @ rest st1" "before st1 = rev w1 @ before st" by auto
  from disj show ?case
  proof
    assume "st' = st1"
    with w1 show ?thesis by blast
  next
    assume in2: "st' \<in> set (rx_match ic (OneOrMore a) st1)"
    have "st1 \<in> set (filter (\<lambda>st1. length (rest st1) < length (rest st)) (rx_match ic a st))"
      using st1 less by simp
    from "8.IH"(2)[OF this in2] obtain w2 where
      w2: "rest st1 = w2 @ rest st'" "before st' = rev w2 @ before st1" by auto
    from w1 w2 have "rest st = (w1 @ w2) @ rest st' \<and> before st' = rev (w1 @ w2) @ before st"
      by simp
    then show ?thesis by blast
  qed
next
  case (9 ic n a st)
  then show ?case by auto
qed

lemma rx_match_captures:
  "st' \<in> set (rx_match ic r st) \<Longrightarrow> n \<notin> group_ids r \<Longrightarrow> captures st' n = captures st n"
proof (induction ic r st arbitrary: st' rule: rx_match.induct)
  case (5 ic a b st)
  from "5.prems" obtain st1 where st1: "st1 \<in> set (rx_match ic a st)"
    and st': "st' \<in> set (rx_match ic b st1)" by auto
  from "5.IH"(1)[OF st1] "5.IH"(2)[OF st1 st'] "5.prems"(2) show ?case by simp
next
  case (8 ic a st)
  from OneOrMore_memD[OF "8.prems"(1)] obtain st1 where st1: "st1 \<in> set (rx_match ic a st)"
    and less: "length (rest st1) < length (rest st)"
    and disj: "st' = st1 \<or> st' \<in> set (rx_match ic (OneOrMore a) st1)"
    by auto
  have f: "st1 \<in> set (filter (\<lambda>st1. length (rest st1) < length (rest st)) (rx_match ic a st))"
    using st1 less by simp
  from disj "8.IH"(1)[OF st1] "8.IH"(2)[OF f] "8.prems"(2) show ?case by auto
qed (auto split: list.splits if_splits)

lemma OneOrMore_CharSet:
  "st' \<in> set (rx_match ic (OneOrMore (CharSet items)) st) \<Longrightarrow>
   \<exists>w. w \<noteq> [] \<and> rest st = w @ rest st' \<and> before st' = rev w @ before st
       \<and> captures st' = captures st
       \<and> (\<forall>c \<in> set w. list_ex (item_match ic c) items)"
proof (induction "length (rest st)" arbitrary: st rule: less_induct)
  case less
  from OneOrMore_memD[OF less.prems] obtain st1
    where st1: "st1 \<in> set (rx_match ic (CharSet items) st)"
    and lt: "length (rest st1) < length (rest st)"
    and disj: "st' = st1 \<or> st' \<in> set (rx_match ic (OneOrMore (CharSet items)) st1)"
    by auto
  from st1 obtain c cs where c: "rest st = c # cs" "list_ex (item_match ic c) items"
    "st1 = MState (c # before st) cs (captures st)"
    by (cases "rest st") (auto split: if_splits)
  from disj show ?case
  proof
    assume "st' = st1"
    with c have "[c] \<noteq> [] \<and> rest st = [c] @ rest st' \<and> before st' = rev [c] @ before st
       \<and> captures st' = captures st \<and> (\<forall>c \<in> set [c]. list_ex (item_match ic c) items)"
      by simp
    then show ?thesis by blast
  next
    assume "st' \<in> set (rx_match ic (OneOrMore (CharSet items)) st1)"
    from less.hyps[OF lt this] obtain w where
      w: "rest st1 = w @ rest st'" "before st' = rev w @ before st1"
         "captures st' = captures st1" "\<forall>c \<in> set w. list_ex (item_match ic c) items"
      by auto
    with c have "c # w \<noteq> [] \<and> rest st = (c # w) @ rest st'
       \<and> before st' = rev (c # w) @ before st
       \<and> captures st' = captures st \<and> (\<forall>c \<in> set (c # w). list_ex (item_match ic c) items)"
      by simp
    then show ?thesis by blast
  qed
qed

lemma cat_append_mem:
  "st' \<in> set (rx_match ic (cat (xs @ ys)) st) \<longleftrightarrow>
     (\<exists>st1 \<in> set (rx_match ic (cat xs) st). st' \<in> set (rx_match ic (cat ys) st1))"
  by (induction xs arbitrary: st) (auto simp: cat_def)

lemma cat_Cons_mem:
  "st' \<in> set (rx_match ic (cat (x # ys)) st) \<longleftrightarrow>
     (\<exists>st1 \<in> set (rx_match ic x st). st' \<in> set (rx_match ic (cat ys) st1))"
  by (auto simp: cat_def)

lemma lits_mem:
  "st' \<in> set (rx_match ic (cat (lits s @ rs)) st) \<Longrightarrow>
   \<exists>f st1. rest st = f @ rest st1 \<and> list_all2 (\<lambda>c x. item_match ic c (Chr x)) f s
      \<and> st' \<in> set (rx_match ic (cat rs) st1)"
proof (induction s arbitrary: st)
  case Nil
  then have "rest st = [] @ rest st \<and> list_all2 (\<lambda>c x. item_match ic c (Chr x)) [] []
      \<and> st' \<in> set (rx_match ic (cat rs) st)"
    by (simp add: lits_def)
  then show ?case by blast
next
  case (Cons x s)
  from Cons.prems obtain st1 where st1: "st1 \<in> set (rx_match ic (Lit x) st)"
    and st': "st' \<in> set (rx_match ic (cat (lits s @ rs)) st1)"
    by (auto simp: lits_def cat_def)
  from st1 obtain c cs where c: "rest st = c # cs" "item_match ic c (Chr x)" "rest st1 = cs"
    by (cases "rest st") (auto simp del: item_match.simps split: if_splits)
  from Cons.IH[OF st'] obtain f st2 where
    f: "rest st1 = f @ rest st2" "list_all2 (\<lambda>c x. item_match ic c (Chr x)) f s"
       "st' \<in> set (rx_match ic (cat rs) st2)" by auto
  with c have "rest st = (c # f) @ rest st2
      \<and> list_all2 (\<lambda>c x. item_match ic c (Chr x)) (c # f) (x # s)
      \<and> st' \<in> set (rx_match ic (cat rs) st2)" by simp
  then show ?case by blast
qed

lemma search_from_Some:
  "search_from ic r bef s = Some st \<Longrightarrow>
   \<exists>bef' s'. rev bef' @ s' = rev bef @ s \<and> st \<in> set (rx_match ic r (MState bef' s' Map.empty))"
proof (induction s arbitrary: bef)
  case Nil
  then have "st \<in> set (rx_match ic r (MState bef [] Map.empty))"
    by (auto split: list.splits)
  then show ?case by blast
next
  case (Cons c cs)
  show ?case
  proof (cases "rx_match ic r (MState bef (c # cs) Map.empty)")
    case Nil
    with Cons.prems have "search_from ic r (c # bef) cs = Some st" by simp
    from Cons.IH[OF this] show ?thesis by auto
  next
    case (Cons a list)
    with Cons.prems have "st \<in> set (rx_match ic r (MState bef (c # cs) Map.empty))" by auto
    then show ?thesis by blast
  qed
qed

lemma pat_split:
  "DORMSPAM_PATTERN = cat (
     [WordBoundary,
      CharSet [Chr CHR ''b'', Chr CHR ''B''], Lit CHR ''c'', Lit CHR ''c'',
      Optional (CharSet [Chr CHR 0x27, Chr CHR 0x60, Chr CHR ''-'']),
      Optional (Lit CHR ''e''), Lit CHR ''d'',
      OneOrMore (CharSet [CatSpace]), Lit CHR ''t'', Lit CHR ''o'',
      OneOrMore (CharSet [CatSpace]),
      Optional (Capture 1 (cat (lits ''all'' @ [OneOrMore (CharSet [CatSpace])]))),
      Or (cat (lits ''dorms'')) (cat (lits ''dormspam'')),
      Optional (CharSet [Chr CHR '';'', Chr CHR '','', Chr CHR ''.''])]
     @ (OneOrMore (CharSet [CatSpace])
        # Capture 2 (OneOrMore (CharSet [Chr CHR ''*'', CatSpace, CatWord, Chr CHR ''-'']))
        # OneOrMore (CharSet [CatSpace])
        # (lits ''for bc-talk'' @ [WordBoundary])))"
  unfolding DORMSPAM_PATTERN_def by (simp only: append.simps)


lemma lower_eq_nonletter:
  assumes "lower c = x" and "(of_char x :: nat) < 97"
  shows "c = x"
proof -
  define n where "n = (of_char c :: nat)"
  have low: "lower c = (if (65 \<le> n \<and> n \<le> 90) \<or> (192 \<le> n \<and> n \<le> 222 \<and> n \<noteq> 215)
                       then char_of (n + 32) else c)"
    by (simp add: lower_def Let_def n_def)
  show ?thesis
  proof (cases "(65 \<le> n \<and> n \<le> 90) \<or> (192 \<le> n \<and> n \<le> 222 \<and> n \<noteq> 215)")
    case True
    with low have "lower c = char_of (n + 32)" by simp
    then have "(of_char (lower c) :: nat) = (n + 32) mod 256" by simp
    moreover from True have "n + 32 < 256" by arith
    ultimately have "(of_char (lower c) :: nat) = n + 32" by simp
    with True have "(of_char (lower c) :: nat) \<ge> 97" by arith
    with assms show ?thesis by simp
  next
    case False
    with low have "lower c = c" by simp
    with assms show ?thesis by simp
  qed
qed

lemma cls_color_char:
  assumes "list_ex (item_match True ch) [Chr CHR ''*'', CatSpace, CatWord, Chr CHR ''-'']"
  shows "color_char ch"
proof -
  have l1: "lower CHR ''*'' = CHR ''*''" and l2: "lower CHR ''-'' = CHR ''-''"
    by (simp_all add: lower_def)
  from assms have "lower ch = CHR ''*'' \<or> is_space ch \<or> is_word ch \<or> lower ch = CHR ''-''"
    by (simp add: l1 l2)
  moreover have "ch = CHR ''*''" if "lower ch = CHR ''*''"
    using lower_eq_nonletter[OF that] by simp
  moreover have "ch = CHR ''-''" if "lower ch = CHR ''-''"
    using lower_eq_nonletter[OF that] by simp
  ultimately show ?thesis
    by (auto simp: color_char_def)
qed


lemma item_match_lower:
  "list_all2 (\<lambda>c x. item_match True c (Chr x)) f s \<Longrightarrow> map lower f = map lower s"
  by (induction f s rule: list_all2_induct) auto

lemma lower_marker: "map lower ''for bc-talk'' = ''for bc-talk''"
  by (simp add: lower_def)


lemma cat_appendD:
  "st' \<in> set (rx_match ic (cat (xs @ ys)) st) \<Longrightarrow>
     \<exists>st1 \<in> set (rx_match ic (cat xs) st). st' \<in> set (rx_match ic (cat ys) st1)"
  by (simp add: cat_append_mem)

lemma cat_ConsD:
  "st' \<in> set (rx_match ic (cat (x # ys)) st) \<Longrightarrow>
     \<exists>st1 \<in> set (rx_match ic x st). st' \<in> set (rx_match ic (cat ys) st1)"
  by (simp add: cat_Cons_mem)

lemma CaptureD:
  "st' \<in> set (rx_match ic (Capture n a) st) \<Longrightarrow>
     \<exists>st1 \<in> set (rx_match ic a st).
        st' = MState (before st1) (rest st1)
               ((captures st1)(n \<mapsto> take (length (rest st) - length (rest st1)) (rest st)))"
  by auto

lemma post_no_group: "2 \<notin> group_ids (cat (lits ''for bc-talk'' @ [WordBoundary]))"
  by (simp add: cat_def lits_def)

lemma space_class: "list_ex (item_match ic c) [CatSpace] \<Longrightarrow> is_space c"
  by simp

lemma dormspam_match:
  assumes "st \<in> set (rx_match True DORMSPAM_PATTERN st0)"
  shows "\<exists>p c ws f q.
           rev (before st0) @ rest st0 = p @ c @ ws @ f @ q
         \<and> captures st 2 = Some c \<and> c \<noteq> [] \<and> (\<forall>ch \<in> set c. color_char ch)
         \<and> p \<noteq> [] \<and> is_space (last p)
         \<and> ws \<noteq> [] \<and> (\<forall>ch \<in> set ws. is_space ch)
         \<and> map lower f = ''for bc-talk''"
proof -
  from cat_appendD[OF assms[unfolded pat_split]] obtain s1 where
    s1: "s1 \<in> set (rx_match True (cat
     [WordBoundary,
      CharSet [Chr CHR ''b'', Chr CHR ''B''], Lit CHR ''c'', Lit CHR ''c'',
      Optional (CharSet [Chr CHR 0x27, Chr CHR 0x60, Chr CHR ''-'']),
      Optional (Lit CHR ''e''), Lit CHR ''d'',
      OneOrMore (CharSet [CatSpace]), Lit CHR ''t'', Lit CHR ''o'',
      OneOrMore (CharSet [CatSpace]),
      Optional (Capture 1 (cat (lits ''all'' @ [OneOrMore (CharSet [CatSpace])]))),
      Or (cat (lits ''dorms'')) (cat (lits ''dormspam'')),
      Optional (CharSet [Chr CHR '';'', Chr CHR '','', Chr CHR ''.''])]) st0)" and
    r1: "st \<in> set (rx_match True (cat (OneOrMore (CharSet [CatSpace])
        # Capture 2 (OneOrMore (CharSet [Chr CHR ''*'', CatSpace, CatWord, Chr CHR ''-'']))
        # OneOrMore (CharSet [CatSpace])
        # (lits ''for bc-talk'' @ [WordBoundary]))) s1)"
    by blast
  from rx_match_consume[OF s1] obtain w0 where
    w0: "rest st0 = w0 @ rest s1" by blast
  from cat_ConsD[OF r1] obtain s2 where
    s2: "s2 \<in> set (rx_match True (OneOrMore (CharSet [CatSpace])) s1)" and
    r2: "st \<in> set (rx_match True (cat (
          Capture 2 (OneOrMore (CharSet [Chr CHR ''*'', CatSpace, CatWord, Chr CHR ''-'']))
        # OneOrMore (CharSet [CatSpace])
        # (lits ''for bc-talk'' @ [WordBoundary]))) s2)"
    by blast
  from OneOrMore_CharSet[OF s2] obtain ws0 where
    ws0: "ws0 \<noteq> []" "rest s1 = ws0 @ rest s2"
         "\<forall>c \<in> set ws0. list_ex (item_match True c) [CatSpace]" by blast
  from cat_ConsD[OF r2] obtain s3 where
    s3: "s3 \<in> set (rx_match True
           (Capture 2 (OneOrMore (CharSet [Chr CHR ''*'', CatSpace, CatWord, Chr CHR ''-'']))) s2)" and
    r3: "st \<in> set (rx_match True (cat (OneOrMore (CharSet [CatSpace])
        # (lits ''for bc-talk'' @ [WordBoundary]))) s3)"
    by blast
  from CaptureD[OF s3] obtain s3' where
    s3': "s3' \<in> set (rx_match True
            (OneOrMore (CharSet [Chr CHR ''*'', CatSpace, CatWord, Chr CHR ''-''])) s2)" and
    s3eq: "s3 = MState (before s3') (rest s3')
             ((captures s3')(2 \<mapsto> take (length (rest s2) - length (rest s3')) (rest s2)))"
    by blast
  from OneOrMore_CharSet[OF s3'] obtain c where
    c: "c \<noteq> []" "rest s2 = c @ rest s3'"
       "\<forall>ch \<in> set c. list_ex (item_match True ch) [Chr CHR ''*'', CatSpace, CatWord, Chr CHR ''-'']"
    by blast
  have cap3: "captures s3 2 = Some c" and rest3: "rest s3 = rest s3'"
    using s3eq c(2) by simp_all
  from cat_ConsD[OF r3] obtain s4 where
    s4: "s4 \<in> set (rx_match True (OneOrMore (CharSet [CatSpace])) s3)" and
    r4: "st \<in> set (rx_match True (cat (lits ''for bc-talk'' @ [WordBoundary])) s4)"
    by blast
  from OneOrMore_CharSet[OF s4] obtain ws where
    ws: "ws \<noteq> []" "rest s3 = ws @ rest s4" "captures s4 = captures s3"
        "\<forall>c \<in> set ws. list_ex (item_match True c) [CatSpace]" by blast
  from lits_mem[OF r4] obtain f s5 where
    f: "rest s4 = f @ rest s5" "list_all2 (\<lambda>c x. item_match True c (Chr x)) f ''for bc-talk''"
    by blast
  from rx_match_captures[OF r4 post_no_group] ws(3) cap3 have cap: "captures st 2 = Some c"
    by simp
  have lowf: "map lower f = ''for bc-talk''"
    using item_match_lower[OF f(2)] by (simp only: lower_marker)
  have colour: "\<forall>ch \<in> set c. color_char ch"
    using c(3) cls_color_char by blast
  have sp0: "\<forall>c \<in> set ws0. is_space c" and sp: "\<forall>c \<in> set ws. is_space c"
    using ws0(3) ws(4) space_class by blast+
  let ?p = "rev (before st0) @ w0 @ ws0"
  have whole: "rev (before st0) @ rest st0 = ?p @ c @ ws @ f @ rest s5"
    using w0 ws0(2) c(2) rest3 ws(2) f(1) by simp
  have pne: "?p \<noteq> []" and plast: "is_space (last ?p)"
    using ws0(1) sp0 by simp_all
  have "rev (before st0) @ rest st0 = ?p @ c @ ws @ f @ rest s5
      \<and> captures st 2 = Some c \<and> c \<noteq> [] \<and> (\<forall>ch \<in> set c. color_char ch)
      \<and> ?p \<noteq> [] \<and> is_space (last ?p)
      \<and> ws \<noteq> [] \<and> (\<forall>ch \<in> set ws. is_space ch)
      \<and> map lower f = ''for bc-talk''"
    using whole cap c(1) colour pne plast ws(1) sp lowf by (intro conjI)
  then show ?thesis
    by (intro exI)
qed

lemma re_search_dormspam:
  assumes "re_search DORMSPAM_PATTERN s True = Some st"
  shows "\<exists>p c ws f q.
           s = p @ c @ ws @ f @ q
         \<and> group st DORMSPAM_PATTERN_COLOR_GROUP = Some c \<and> c \<noteq> []
         \<and> (\<forall>ch \<in> set c. color_char ch)
         \<and> p \<noteq> [] \<and> is_space (last p)
         \<and> ws \<noteq> [] \<and> (\<forall>ch \<in> set ws. is_space ch)
         \<and> map lower f = ''for bc-talk''"
proof -
  from search_from_Some[OF assms[unfolded re_search_def]] obtain bef' s' where
    eq: "rev bef' @ s' = s" and
    mem: "st \<in> set (rx_match True DORMSPAM_PATTERN (MState bef' s' Map.empty))"
    by auto
  have "rev (before (MState bef' s' Map.empty)) @ rest (MState bef' s' Map.empty) = s"
    using eq by simp
  with dormspam_match[OF mem] show ?thesis
    by (simp only: group_def DORMSPAM_PATTERN_COLOR_GROUP_def)
qed

section \<open>The order in which the matcher tries\<close>















section \<open>The dorm-list clause, the phrase and the marker\<close>













section \<open>The broadcast flag and the color\<close>

lemma plaintext_plain_email: "plaintext lib (plain_email text) = text"
  by (simp add: plaintext_def plain_email_def)

lemma color_yellow:
  "(case re_search DORMSPAM_PATTERN ''Bcc'd to all dorms; yellow for bc-talk'' True of
      Some search \<Rightarrow> group search DORMSPAM_PATTERN_COLOR_GROUP
    | None \<Rightarrow> None) = Some ''yellow''"
  by code_simp




lemma color_two_markers:
  "(case re_search DORMSPAM_PATTERN ''bccd to dorms a for bc-talk b for bc-talk'' True of
      Some search \<Rightarrow> group search DORMSPAM_PATTERN_COLOR_GROUP
    | None \<Rightarrow> None) = Some ''a for bc-talk b''"
  by code_simp

lemma search_hello: "re_search DORMSPAM_PATTERN ''hello dorms'' True = None"
  by code_simp

lemma search_no_clause: "re_search DORMSPAM_PATTERN ''hello world for bc-talk'' True = None"
  by code_simp


text \<open>
  C7. The broadcast flag of an email is true exactly when its color is present; when the
  pattern does not match the plaintext, the color is \<open>None\<close> and the flag is false.
\<close>

theorem dormspam_iff_color:
  "(dormspam lib self \<longleftrightarrow> color lib self \<noteq> None)
   \<and> (re_search DORMSPAM_PATTERN (plaintext lib self) True = None \<longrightarrow>
        color lib self = None \<and> \<not> dormspam lib self)"
proof (cases "re_search DORMSPAM_PATTERN (plaintext lib self) True")
  case None
  then show ?thesis
    by (simp add: dormspam_def color_def truthy_opt_str_def)
next
  case (Some st)
  from re_search_dormspam[OF Some] obtain c where
    "group st DORMSPAM_PATTERN_COLOR_GROUP = Some c" "c \<noteq> []" by blast
  with Some show ?thesis
    by (simp add: dormspam_def color_def truthy_opt_str_def)
qed

theorem dormspam_iff_color_witness:
  "dormspam example_htmllib (plain_email ''Bcc'd to all dorms; yellow for bc-talk'')
   \<and> color example_htmllib (plain_email ''Bcc'd to all dorms; yellow for bc-talk'') = Some ''yellow''
   \<and> \<not> dormspam example_htmllib (plain_email ''hello dorms'')
   \<and> color example_htmllib (plain_email ''hello dorms'') = None"
proof -
  have a: "color example_htmllib (plain_email ''Bcc'd to all dorms; yellow for bc-talk'')
             = Some ''yellow''"
    unfolding color_def plaintext_plain_email by (rule color_yellow)
  have b: "re_search DORMSPAM_PATTERN (plaintext example_htmllib (plain_email ''hello dorms'')) True
             = None"
    unfolding plaintext_plain_email by (rule search_hello)
  show ?thesis
    using dormspam_iff_color[of example_htmllib "plain_email ''Bcc'd to all dorms; yellow for bc-talk''"]
          dormspam_iff_color[of example_htmllib "plain_email ''hello dorms''"] a b
    by simp
qed






text \<open>
  With two markers the phrase runs to the last one that its characters reach, and a text
  with the marker and no dorm-list clause has no color.
\<close>

lemma color_longest_example:
  "color lib (plain_email ''bccd to dorms a for bc-talk b for bc-talk'') = Some ''a for bc-talk b''"
  unfolding color_def plaintext_plain_email by (rule color_two_markers)

lemma color_needs_clause:
  "color lib (plain_email ''hello world for bc-talk'') = None"
  unfolding color_def plaintext_plain_email by (simp add: search_no_clause)

section \<open>Trailing characters after a date\<close>

lemma startswith_append: "startswith (p @ r) p"
  by (induction p) auto

lemma str_partition_prefix:
  assumes "sep \<noteq> []"
  shows "str_partition (sep @ t) sep = ([], sep, t)"
proof -
  from assms obtain c cs where eq: "sep @ t = c # cs" by (cases sep) auto
  have sw: "startswith (c # cs) sep"
    using startswith_append[of sep t] by (simp only: eq)
  have "drop (length sep) (c # cs) = t"
    by (simp add: eq[symmetric])
  with sw have "str_partition (c # cs) sep = ([], sep, t)"
    by simp
  then show ?thesis by (simp only: eq)
qed

text \<open>
  C5. For a date that is a valid timestamp in the format followed by characters that
  \<open>strptime\<close> reports as unconverted, \<open>parse_date\<close> does not fail: it returns the
  datetime \<open>strptime\<close> gives for the date without those characters.
\<close>

theorem parse_date_trailing:
  assumes "extra \<noteq> []"
    and "strptime (prefix @ extra) ''%a, %d %b %Y %H:%M:%S %z''
           = Inl (''unconverted data remains: '' @ extra)"
    and "strptime prefix ''%a, %d %b %Y %H:%M:%S %z'' = Inr dt"
  shows "parse_date strptime (prefix @ extra) = Inr dt"
proof -
  have "str_partition (''unconverted data remains: '' @ extra) ''unconverted data remains: ''
          = ([], ''unconverted data remains: '', extra)"
    by (rule str_partition_prefix) simp
  with assms show ?thesis
    by (simp add: parse_date_def Let_def)
qed

theorem parse_date_trailing_witness:
  "parse_date example_strptime ''Mon, 01 Jan 2024 10:00:00 +0000 (UTC)''
     = Inr (2024, 1, 1, 10, 0, 0, 0)"
proof -
  have a: "'' (UTC)'' \<noteq> []" by simp
  have b: "example_strptime (''Mon, 01 Jan 2024 10:00:00 +0000'' @ '' (UTC)'')
             ''%a, %d %b %Y %H:%M:%S %z'' = Inl (''unconverted data remains: '' @ '' (UTC)'')"
    by (simp add: example_strptime_def)
  have c: "example_strptime ''Mon, 01 Jan 2024 10:00:00 +0000'' ''%a, %d %b %Y %H:%M:%S %z''
             = Inr (2024, 1, 1, 10, 0, 0, 0)"
    by (simp add: example_strptime_def)
  from parse_date_trailing[where strptime = example_strptime and extra = "'' (UTC)''"
         and prefix = "''Mon, 01 Jan 2024 10:00:00 +0000''", OF a b c]
  show ?thesis by simp
qed

end
